theory Spec2Isabelle
  imports Main "HOL-Library.Sublist"
begin

section \<open>The Berry lockfile of cli/internal/lockfile/berry\_lockfile.go\<close>

text \<open>
  A shallow embedding of \<^verbatim>\<open>berry_lockfile.go\<close>. Go strings are byte strings
  (\<open>string\<close>); a \<^verbatim>\<open>*YarnLockfileEntry\<close> is a pointer into a store of
  entries; a \<^verbatim>\<open>*BerryLockfile\<close> is the address of a map object in the same
  store. A Go map that the code walks with \<^verbatim>\<open>range\<close> is given as the list of
  its key/value pairs in the order of that walk (Go fixes no order, so a statement about
  the map is a statement about every such list with pairwise distinct keys); a Go map that
  is only read and written by key is a HOL map.
\<close>

subsection \<open>Data\<close>

type_synonym addr = nat

datatype ptr = Nil | Ref addr

record YarnLockfileEntry =
  Version :: string
  Resolved :: string
  Integrity :: string
  Dependencies :: "(string \<times> string) list"
  OptionalDependencies :: "(string \<times> string) list"

type_synonym BerryLockfile = "string \<rightharpoonup> ptr"

text \<open>
  The store: the entry objects, the lockfile (map) objects, and the next address that
  \<^verbatim>\<open>make\<close> or \<^verbatim>\<open>&BerryLockfile{}\<close> hands out.
\<close>

record store =
  entries :: "addr \<rightharpoonup> YarnLockfileEntry"
  lockfiles :: "addr \<rightharpoonup> BerryLockfile"
  fresh :: addr

text \<open>A run-time panic of the Go program.\<close>

datatype fault = NilDereference | NilMapAssignment

definition deref :: "store \<Rightarrow> ptr \<Rightarrow> YarnLockfileEntry option" where
  "deref s p = (case p of Nil \<Rightarrow> None | Ref a \<Rightarrow> entries s a)"

text \<open>Allocation of a new map object holding \<open>m\<close>.\<close>

definition new_lockfile :: "BerryLockfile \<Rightarrow> store \<Rightarrow> addr \<times> store" where
  "new_lockfile m s =
     (fresh s, s\<lparr>lockfiles := (lockfiles s)(fresh s \<mapsto> m), fresh := Suc (fresh s)\<rparr>)"

text \<open>No map object lives at or beyond the next address to be handed out.\<close>

definition store_ok :: "store \<Rightarrow> bool" where
  "store_ok s = (\<forall>a. fresh s \<le> a \<longrightarrow> lockfiles s a = None)"

subsection \<open>The string functions of Go's library that the code calls\<close>

text \<open>
  \<^verbatim>\<open>strings.Split(s, sep)\<close> for a non-empty separator: the pieces between the
  occurrences of \<open>sep\<close>, found from the left without overlap; always at least one
  piece. (The code passes \<^verbatim>\<open>", "\<close> only; for the empty separator, which Go
  treats specially, this model returns the string unsplit.)
\<close>

function splitFrom :: "string \<Rightarrow> string \<Rightarrow> string \<Rightarrow> string list" where
  "splitFrom sep acc s =
     (if s = [] then [rev acc]
      else if sep \<noteq> [] \<and> prefix sep s then rev acc # splitFrom sep [] (drop (length sep) s)
      else splitFrom sep (hd s # acc) (tl s))"
  by pat_completeness auto
termination
  by (relation "measure (\<lambda>(sep, acc, s). length s)") (auto simp: neq_Nil_conv)

definition Split :: "string \<Rightarrow> string \<Rightarrow> string list" where
  "Split s sep = splitFrom sep [] s"

text \<open>
  \<^verbatim>\<open>strings.TrimSpace\<close> removes leading and trailing white space as Unicode
  defines it. A Go string is UTF-8, so the white space characters are these byte
  sequences: the six ASCII ones, U+0085, U+00A0, U+1680, U+2000 to U+200A, U+2028,
  U+2029, U+202F, U+205F and U+3000.
\<close>

definition spaceRunes :: "string list" where
  "spaceRunes =
     [[CHR 0x09], [CHR 0x0A], [CHR 0x0B], [CHR 0x0C], [CHR 0x0D], [CHR 0x20],
      [CHR 0xC2, CHR 0x85], [CHR 0xC2, CHR 0xA0],
      [CHR 0xE1, CHR 0x9A, CHR 0x80],
      [CHR 0xE2, CHR 0x80, CHR 0x80], [CHR 0xE2, CHR 0x80, CHR 0x81],
      [CHR 0xE2, CHR 0x80, CHR 0x82], [CHR 0xE2, CHR 0x80, CHR 0x83],
      [CHR 0xE2, CHR 0x80, CHR 0x84], [CHR 0xE2, CHR 0x80, CHR 0x85],
      [CHR 0xE2, CHR 0x80, CHR 0x86], [CHR 0xE2, CHR 0x80, CHR 0x87],
      [CHR 0xE2, CHR 0x80, CHR 0x88], [CHR 0xE2, CHR 0x80, CHR 0x89],
      [CHR 0xE2, CHR 0x80, CHR 0x8A],
      [CHR 0xE2, CHR 0x80, CHR 0xA8], [CHR 0xE2, CHR 0x80, CHR 0xA9],
      [CHR 0xE2, CHR 0x80, CHR 0xAF], [CHR 0xE2, CHR 0x81, CHR 0x9F],
      [CHR 0xE3, CHR 0x80, CHR 0x80]]"

text \<open>Drop, from the left, every leading occurrence of one of the sequences \<open>rs\<close>.\<close>

function trimLeft :: "string list \<Rightarrow> string \<Rightarrow> string" where
  "trimLeft rs s =
     (case find (\<lambda>r. r \<noteq> [] \<and> prefix r s) rs of
        None \<Rightarrow> s
      | Some r \<Rightarrow> trimLeft rs (drop (length r) s))"
  by pat_completeness auto
termination
proof (relation "measure (\<lambda>(rs, s). length s)")
  show "wf (measure (\<lambda>(rs, s). length s))" by simp
next
  fix rs :: "string list" and s r :: string
  assume "find (\<lambda>r. r \<noteq> [] \<and> prefix r s) rs = Some r"
  then have "r \<noteq> []" and "prefix r s"
    by (auto simp: find_Some_iff)
  then have "s \<noteq> []" by auto
  with \<open>r \<noteq> []\<close> show "((rs, drop (length r) s), (rs, s)) \<in> measure (\<lambda>(rs, s). length s)"
    by simp
qed

definition TrimSpace :: "string \<Rightarrow> string" where
  "TrimSpace s = rev (trimLeft (map rev spaceRunes) (rev (trimLeft spaceRunes s)))"

subsection \<open>Decoding\<close>

text \<open>
  \<^verbatim>\<open>yarnSplitOutEntries\<close>: the inner loop stores the value of one raw key under
  every trimmed piece of that key, the outer loop walks the raw map.
\<close>

fun putPieces :: "ptr \<Rightarrow> string list \<Rightarrow> BerryLockfile \<Rightarrow> BerryLockfile" where
  "putPieces val [] prettyLockfile = prettyLockfile"
| "putPieces val (v # vs) prettyLockfile =
     putPieces val vs (prettyLockfile(TrimSpace v \<mapsto> val))"

fun splitOut :: "(string \<times> ptr) list \<Rightarrow> BerryLockfile \<Rightarrow> BerryLockfile" where
  "splitOut [] prettyLockfile = prettyLockfile"
| "splitOut ((key, val) # rest) prettyLockfile =
     splitOut rest (putPieces val (Split key '', '') prettyLockfile)"

definition yarnSplitOutEntries :: "(string \<times> ptr) list \<Rightarrow> BerryLockfile" where
  "yarnSplitOutEntries lockfile = splitOut lockfile Map.empty"

text \<open>
  \<^verbatim>\<open>DecodeBerryLockfile\<close>. The parser \<^verbatim>\<open>yaml.Unmarshal\<close> belongs to
  gopkg.in/yaml.v3, not to this repository, so it is a parameter: on \<open>contents\<close> it
  either fails with a message or allocates the entries in the store and yields the raw
  map. An error is its message; \<open>None\<close> is Go's nil error. On failure the function
  returns the address of a new empty lockfile together with the wrapped message.
\<close>

definition DecodeBerryLockfile ::
  "(string \<Rightarrow> store \<Rightarrow> string + ((string \<times> ptr) list \<times> store)) \<Rightarrow> string \<Rightarrow> store
     \<Rightarrow> (addr \<times> string option) \<times> store" where
  "DecodeBerryLockfile yamlUnmarshal contents s =
     (case yamlUnmarshal contents s of
        Inl err \<Rightarrow>
          (case new_lockfile Map.empty s of
             (l, s') \<Rightarrow> ((l, Some (''could not unmarshal lockfile: '' @ err)), s'))
      | Inr (lockfile, s') \<Rightarrow>
          (case new_lockfile (yarnSplitOutEntries lockfile) s' of
             (prettyLockFile, s'') \<Rightarrow> ((prettyLockFile, None), s'')))"

subsection \<open>Lookup\<close>

text \<open>
  \<^verbatim>\<open>ResolvePackage\<close>. The candidate keys come from \<^verbatim>\<open>yarnPossibleKeys\<close>,
  which is defined in another file of the package: it is a parameter. Every method
  returns the store next to its result, so that what it leaves unchanged can be stated.
\<close>

fun probeKeys ::
  "addr \<Rightarrow> string list \<Rightarrow> store \<Rightarrow> fault + ((string \<times> string \<times> bool) \<times> store)" where
  "probeKeys l [] s = Inr (('''', '''', False), s)"
| "probeKeys l (key # keys) s =
     (case lockfiles s l of
        None \<Rightarrow> Inl NilDereference
      | Some m \<Rightarrow>
          (case m key of
             Some entry \<Rightarrow>
               (case deref s entry of
                  None \<Rightarrow> Inl NilDereference
                | Some e \<Rightarrow> Inr ((key, Version e, True), s))
           | None \<Rightarrow> probeKeys l keys s))"

definition ResolvePackage ::
  "(string \<Rightarrow> string \<Rightarrow> string list) \<Rightarrow> addr \<Rightarrow> string \<Rightarrow> string \<Rightarrow> store
     \<Rightarrow> fault + ((string \<times> string \<times> bool) \<times> store)" where
  "ResolvePackage yarnPossibleKeys l name version s =
     probeKeys l (yarnPossibleKeys name version) s"

text \<open>
  \<^verbatim>\<open>AllDependencies\<close>: \<open>rangePut\<close> is the loop
  \<^verbatim>\<open>for name, version := range ... { deps[name] = version }\<close>.
\<close>

fun rangePut :: "(string \<times> string) list \<Rightarrow> (string \<rightharpoonup> string) \<Rightarrow> (string \<rightharpoonup> string)" where
  "rangePut [] deps = deps"
| "rangePut ((name, version) # rest) deps = rangePut rest (deps(name \<mapsto> version))"

definition AllDependencies ::
  "addr \<Rightarrow> string \<Rightarrow> store \<Rightarrow> fault + (((string \<rightharpoonup> string) \<times> bool) \<times> store)" where
  "AllDependencies l key s =
     (case lockfiles s l of
        None \<Rightarrow> Inl NilDereference
      | Some m \<Rightarrow>
          (case m key of
             None \<Rightarrow> Inr ((Map.empty, False), s)
           | Some entry \<Rightarrow>
               (case deref s entry of
                  None \<Rightarrow> Inl NilDereference
                | Some e \<Rightarrow>
                    Inr ((rangePut (OptionalDependencies e)
                            (rangePut (Dependencies e) Map.empty), True), s))))"

subsection \<open>Subgraph\<close>

text \<open>
  The loop reads the receiver's map and writes the map object it was given, both through
  the store. The first argument of \<^verbatim>\<open>Subgraph\<close> (the workspace paths) is
  ignored by the code; the returned error is always nil.
\<close>

fun subgraphLoop :: "addr \<Rightarrow> addr \<Rightarrow> string list \<Rightarrow> store \<Rightarrow> fault + store" where
  "subgraphLoop l lockfile [] s = Inr s"
| "subgraphLoop l lockfile (key # packages) s =
     (case lockfiles s l of
        None \<Rightarrow> Inl NilDereference
      | Some m \<Rightarrow>
          (case m key of
             None \<Rightarrow> subgraphLoop l lockfile packages s
           | Some entry \<Rightarrow>
               (case lockfiles s lockfile of
                  None \<Rightarrow> Inl NilMapAssignment
                | Some new \<Rightarrow>
                    subgraphLoop l lockfile packages
                      (s\<lparr>lockfiles := (lockfiles s)(lockfile \<mapsto> new(key \<mapsto> entry))\<rparr>))))"

definition Subgraph ::
  "addr \<Rightarrow> string list \<Rightarrow> string list \<Rightarrow> store \<Rightarrow> fault + ((addr \<times> string option) \<times> store)" where
  "Subgraph l paths packages s =
     (case new_lockfile Map.empty s of
        (lockfile, s') \<Rightarrow>
          (case subgraphLoop l lockfile packages s' of
             Inl f \<Rightarrow> Inl f
           | Inr s'' \<Rightarrow> Inr ((lockfile, None), s'')))"

subsection \<open>Encoding\<close>

text \<open>\<^verbatim>\<open>errors.Wrap(err, message)\<close>: the message, a colon, the cause.\<close>

definition Wrap :: "string \<Rightarrow> string \<Rightarrow> string" where
  "Wrap err message = message @ '': '' @ err"

text \<open>
  \<^verbatim>\<open>strings.ReplaceAll(line, old, new)\<close> for one-byte \<open>old\<close> and \<open>new\<close>, as
  the code calls it.
\<close>

definition ReplaceAll :: "string \<Rightarrow> char \<Rightarrow> char \<Rightarrow> string" where
  "ReplaceAll s old new = map (\<lambda>c. if c = old then new else c) s"

text \<open>
  The scanner. \<^verbatim>\<open>bufio.Scanner\<close> with the default split function
  \<^verbatim>\<open>ScanLines\<close> yields the text before each line feed, and the text after the
  last one when that is not empty, each without one trailing carriage return. Its buffer
  is \<^verbatim>\<open>scan.Buffer(buf, 10*1024*1024)\<close>: a line of \<open>maxTokenSize\<close> bytes or
  more does not fit, \<^verbatim>\<open>Scan\<close> then returns false, and the loop of
  \<^verbatim>\<open>Encode\<close>, which never asks \<^verbatim>\<open>scan.Err()\<close>, ends there.
  \<open>scanTokens\<close> is the list of lines the loop sees.
\<close>

definition maxTokenSize :: nat where
  "maxTokenSize = 10 * 1024 * 1024"

definition dropCR :: "string \<Rightarrow> string" where
  "dropCR data = (if data \<noteq> [] \<and> last data = CHR 0x0D then butlast data else data)"

function scanTokens :: "nat \<Rightarrow> string \<Rightarrow> string list" where
  "scanTokens limit data =
     (if data = [] then []
      else if limit \<le> length (takeWhile (\<lambda>c. c \<noteq> CHR 0x0A) data) then []
      else dropCR (takeWhile (\<lambda>c. c \<noteq> CHR 0x0A) data) #
           (case dropWhile (\<lambda>c. c \<noteq> CHR 0x0A) data of
              [] \<Rightarrow> []
            | lf # rest \<Rightarrow> scanTokens limit rest))"
  by pat_completeness auto
termination
proof (relation "measure (\<lambda>(limit, data). length data)")
  show "wf (measure (\<lambda>(limit, data). length data))" by simp
next
  fix limit :: nat and data rest :: string and lf :: char
  assume "dropWhile (\<lambda>c. c \<noteq> CHR 0x0A) data = lf # rest"
  then have "length (dropWhile (\<lambda>c. c \<noteq> CHR 0x0A) data) = Suc (length rest)"
    by simp
  moreover have "length (dropWhile (\<lambda>c. c \<noteq> CHR 0x0A) data) \<le> length data"
    by (rule length_dropWhile_le)
  ultimately show "((limit, rest), (limit, data)) \<in> measure (\<lambda>(limit, data). length data)"
    by simp
qed

text \<open>
  The writer is the caller's \<^verbatim>\<open>io.Writer\<close>: a parameter that takes the sink
  and the bytes and gives the sink afterwards with the error, if any.
  \<open>writeLines\<close> is the loop over the scanned lines.
\<close>

fun writeLines ::
  "('w \<Rightarrow> string \<Rightarrow> 'w \<times> string option) \<Rightarrow> string list \<Rightarrow> 'w \<Rightarrow> string option \<times> 'w" where
  "writeLines writeString [] w = (None, w)"
| "writeLines writeString (line # rest) w =
     (let stringToWrite =
        (if \<not> prefix '' '' line
         then [CHR 0x0A] @ ReplaceAll line (CHR 0x27) (CHR 0x22) @ [CHR 0x0A]
         else ReplaceAll line (CHR 0x27) (CHR 0x22) @ [CHR 0x0A])
      in case writeString w stringToWrite of
           (w', Some err) \<Rightarrow> (Some (Wrap err ''failed to write to buffer''), w')
         | (w', None) \<Rightarrow> writeLines writeString rest w')"

definition fileHeader :: string where
  "fileHeader =
     ''# This file is generated by running '' @ [CHR 0x22] @ ''yarn install'' @ [CHR 0x22]
       @ '' inside your project.'' @ [CHR 0x0A]
     @ ''# Manual changes might be lost - proceed with caution!'' @ [CHR 0x0A]
     @ [CHR 0x0A]
     @ ''__metadata:'' @ [CHR 0x0A]
     @ ''  version: 5'' @ [CHR 0x0A]
     @ ''  cacheKey: 8'' @ [CHR 0x0A]
     @ [CHR 0x0A]"

text \<open>
  What the serializer can read through the receiver: the keys, and behind each pointer
  the entry (nothing behind a nil pointer); nothing at all behind a nil receiver.
\<close>

definition lockfileView :: "store \<Rightarrow> addr \<Rightarrow> (string \<rightharpoonup> YarnLockfileEntry option) option" where
  "lockfileView s l =
     (case lockfiles s l of
        None \<Rightarrow> None
      | Some m \<Rightarrow> Some (\<lambda>key. case m key of None \<Rightarrow> None | Some p \<Rightarrow> Some (deref s p)))"

text \<open>
  \<^verbatim>\<open>Encode\<close>. The serializer \<^verbatim>\<open>yaml.NewEncoder(&tmp)\<close> with indent 2 is
  gopkg.in/yaml.v3: a parameter that maps what it reads to an error message or to the
  bytes it leaves in \<^verbatim>\<open>tmp\<close>.
\<close>

definition Encode ::
  "((string \<rightharpoonup> YarnLockfileEntry option) option \<Rightarrow> string + string)
     \<Rightarrow> ('w \<Rightarrow> string \<Rightarrow> 'w \<times> string option) \<Rightarrow> addr \<Rightarrow> 'w \<Rightarrow> store
     \<Rightarrow> (string option \<times> 'w) \<times> store" where
  "Encode yamlEncode writeString l w s =
     (case yamlEncode (lockfileView s l) of
        Inl err \<Rightarrow>
          ((Some (Wrap err (''failed to materialize sub-lockfile. This can happen if your ''
              @ ''lockfile contains merge conflicts or is somehow corrupted. Please report ''
              @ ''this if it occurs'')), w), s)
      | Inr tmp \<Rightarrow>
          (case writeString w fileHeader of
             (w', Some err) \<Rightarrow> ((Some (Wrap err ''failed to write to buffer''), w'), s)
           | (w', None) \<Rightarrow> (writeLines writeString (scanTokens maxTokenSize tmp) w', s)))"

text \<open>An in-memory sink: every write appends and succeeds.\<close>

definition bufferWrite :: "string \<Rightarrow> string \<Rightarrow> string \<times> string option" where
  "bufferWrite w bytes = (w @ bytes, None)"

subsection \<open>Notions used to state the properties\<close>

text \<open>The canonical keys that one raw key stands for.\<close>

definition pieces :: "string \<Rightarrow> string list" where
  "pieces key = map TrimSpace (Split key '', '')"

text \<open>
  No canonical key is claimed by two raw keys that hold different pointers. (Two raw keys
  that share a piece are stored one after the other under that piece, and the one that the
  walk visits last stays.)
\<close>

definition alias_consistent :: "(string \<times> ptr) list \<Rightarrow> bool" where
  "alias_consistent raw =
     (\<forall>(k, v) \<in> set raw. \<forall>(k', v') \<in> set raw.
        set (pieces k) \<inter> set (pieces k') \<noteq> {} \<longrightarrow> v = v')"

text \<open>A text as lines: each line followed by a line feed.\<close>

definition unlines :: "string list \<Rightarrow> string" where
  "unlines ls = concat (map (\<lambda>line. line @ [CHR 0x0A]) ls)"

text \<open>
  The lines of a text: what stands before each line feed, and what stands after the last
  one when that is not empty.
\<close>

function textLines :: "string \<Rightarrow> string list" where
  "textLines data =
     (if data = [] then []
      else takeWhile (\<lambda>c. c \<noteq> CHR 0x0A) data #
           (case dropWhile (\<lambda>c. c \<noteq> CHR 0x0A) data of
              [] \<Rightarrow> []
            | lf # rest \<Rightarrow> textLines rest))"
  by pat_completeness auto
termination
proof (relation "measure length")
  show "wf (measure length)" by simp
next
  fix data rest :: string and lf :: char
  assume "dropWhile (\<lambda>c. c \<noteq> CHR 0x0A) data = lf # rest"
  then have "length (dropWhile (\<lambda>c. c \<noteq> CHR 0x0A) data) = Suc (length rest)"
    by simp
  moreover have "length (dropWhile (\<lambda>c. c \<noteq> CHR 0x0A) data) \<le> length data"
    by (rule length_dropWhile_le)
  ultimately show "(rest, data) \<in> measure length"
    by simp
qed

text \<open>A line that starts a top-level block: not empty, no leading blank.\<close>

definition topLevelLine :: "string \<Rightarrow> bool" where
  "topLevelLine line = (line \<noteq> [] \<and> \<not> prefix '' '' line)"

text \<open>
  Within a list of lines taken by itself: before every line that starts a top-level block
  stands an empty line, and the line before that one, if the list has one, is not empty.
  (What stands before the first line of the list is not said here.)
\<close>

definition blocks_set_apart :: "string list \<Rightarrow> bool" where
  "blocks_set_apart ls =
     (\<forall>pre line post. ls = pre @ line # post \<and> topLevelLine line \<longrightarrow>
        (\<exists>before. pre = before @ [[]] \<and> (before = [] \<or> last before \<noteq> [])))"

text \<open>
  The lines that the loop of \<open>Encode\<close> writes for the scanned lines: each with its
  single quotes replaced, and an empty line before each one that does not start with a
  blank.
\<close>

definition outputLines :: "string list \<Rightarrow> string list" where
  "outputLines toks =
     concat (map (\<lambda>line. if prefix '' '' line
                          then [ReplaceAll line (CHR 0x27) (CHR 0x22)]
                          else [[], ReplaceAll line (CHR 0x27) (CHR 0x22)]) toks)"

text \<open>
  The lines of the header that \<open>Encode\<close> writes first: \<open>fileHeader\<close> is these
  lines, each followed by a line feed.
\<close>

definition headerLines :: "string list" where
  "headerLines =
     [''# This file is generated by running '' @ [CHR 0x22] @ ''yarn install'' @ [CHR 0x22]
        @ '' inside your project.'',
      ''# Manual changes might be lost - proceed with caution!'',
      [],
      ''__metadata:'',
      ''  version: 5'',
      ''  cacheKey: 8'',
      []]"

text \<open>
  The number of empty lines that stand at the end of a list of lines: for the lines before
  a given line of a text, the number of blank lines right before that line.
\<close>

definition blankRun :: "string list \<Rightarrow> nat" where
  "blankRun pre = length (takeWhile (\<lambda>line. line = []) (rev pre))"


text \<open>A message that names corruption or merge conflicts as a cause.\<close>

definition mentionsCorruption :: "string \<Rightarrow> bool" where
  "mentionsCorruption msg = (sublist ''corrupt'' msg \<or> sublist ''merge conflict'' msg)"

subsection \<open>Data for the examples\<close>

text \<open>
  A store with nothing in it, an entry with a version only, and a parser outcome: the raw
  map, in the order of the walk, and the entries that the parser allocated for it, next to
  the entries that were there.
\<close>

definition emptyStore :: store where
  "emptyStore = \<lparr>entries = Map.empty, lockfiles = Map.empty, fresh = 0\<rparr>"

definition plainEntry :: "string \<Rightarrow> YarnLockfileEntry" where
  "plainEntry v =
     \<lparr>Version = v, Resolved = '''', Integrity = '''', Dependencies = [],
      OptionalDependencies = []\<rparr>"

definition parsedAs ::
  "(string \<times> ptr) list \<Rightarrow> (addr \<rightharpoonup> YarnLockfileEntry) \<Rightarrow> string \<Rightarrow> store
     \<Rightarrow> string + ((string \<times> ptr) list \<times> store)" where
  "parsedAs raw heap contents s = Inr (raw, s\<lparr>entries := entries s ++ heap\<rparr>)"


section \<open>Properties\<close>

text \<open>
  The equations of \<open>scanTokens\<close> and \<open>textLines\<close> unfold without end when used
  as rewrite rules on a text that is not given; they are applied where needed.
\<close>

declare scanTokens.simps [simp del] textLines.simps [simp del]

subsection \<open>The allocator\<close>

lemma new_lockfile_store_ok:
  "store_ok s \<Longrightarrow> store_ok (snd (new_lockfile m s))"
  by (simp add: store_ok_def new_lockfile_def)

text \<open>
  A decoded lockfile meets what the statements below ask of the receiver: it is a map
  object of the store, and the store still hands out unused addresses.
\<close>

lemma DecodeBerryLockfile_receiver:
  assumes "yamlUnmarshal contents s = Inr (raw, s')" and "store_ok s'"
    and "DecodeBerryLockfile yamlUnmarshal contents s = ((l, err), s'')"
  shows "store_ok s'' \<and> lockfiles s'' l = Some (yarnSplitOutEntries raw)"
  using assms by (auto simp: DecodeBerryLockfile_def new_lockfile_def store_ok_def)

subsection \<open>The loops of the decoder\<close>

lemma putPieces_apply:
  "putPieces val vs m p = (if p \<in> TrimSpace ` set vs then Some val else m p)"
  by (induction vs arbitrary: m) auto

text \<open>Among the raw keys that have \<open>p\<close> as a piece, the one visited last decides.\<close>

lemma splitOut_apply:
  "splitOut raw m p =
     (case filter (\<lambda>(k, v). p \<in> set (pieces k)) (rev raw) of
        [] \<Rightarrow> m p
      | (k, v) # _ \<Rightarrow> Some v)"
proof (induction raw arbitrary: m)
  case Nil
  show ?case by simp
next
  case (Cons kv raw)
  obtain k v where kv: "kv = (k, v)" by (cases kv)
  show ?case
    by (simp add: kv Cons.IH putPieces_apply pieces_def split: list.splits)
qed

lemma splitOut_dom:
  "dom (splitOut raw m) = dom m \<union> (\<Union>(k, v) \<in> set raw. set (pieces k))"
proof (induction raw arbitrary: m)
  case Nil
  show ?case by simp
next
  case (Cons kv raw)
  obtain k v where kv: "kv = (k, v)" by (cases kv)
  have "dom (putPieces v (Split k '', '') m) = dom m \<union> set (pieces k)"
    by (auto simp: putPieces_apply pieces_def dom_def)
  then show ?case
    by (auto simp: kv Cons.IH)
qed

lemma splitOut_consistent:
  assumes "alias_consistent raw" and "(k, v) \<in> set raw" and "p \<in> set (pieces k)"
  shows "splitOut raw m p = Some v"
proof -
  let ?hits = "filter (\<lambda>(k, v). p \<in> set (pieces k)) (rev raw)"
  from assms(2,3) have "(k, v) \<in> set ?hits" by simp
  then obtain k' v' rest where hits: "?hits = (k', v') # rest"
    by (cases ?hits) auto
  then have "(k', v') \<in> set ?hits" by simp
  then have "(k', v') \<in> set raw" and "p \<in> set (pieces k')" by auto
  with assms have "v = v'"
    unfolding alias_consistent_def by blast
  with hits show ?thesis
    by (simp add: splitOut_apply)
qed


subsection \<open>Alias splitting\<close>

text \<open>
  C1 (as amended). When the parser accepts the bytes and no canonical key is claimed by
  two raw keys that hold different pointers, decoding succeeds and returns a new lockfile
  whose keys are exactly the trimmed pieces of the raw keys, split at \<open>'', ''\<close>; every
  piece of a raw key maps to the very pointer the raw key held, and no entry object is
  added or changed, so the pieces of one raw key share one Entry instance.
\<close>

theorem decode_splits_aliases:
  assumes "yamlUnmarshal contents s = Inr (raw, s')" and "alias_consistent raw"
  shows "\<exists>m. DecodeBerryLockfile yamlUnmarshal contents s =
             ((fresh s', None),
              s'\<lparr>lockfiles := (lockfiles s')(fresh s' \<mapsto> m), fresh := Suc (fresh s')\<rparr>)
           \<and> dom m = (\<Union>(k, v) \<in> set raw. TrimSpace ` set (Split k '', ''))
           \<and> (\<forall>(k, v) \<in> set raw. \<forall>piece \<in> set (Split k '', '').
                 m (TrimSpace piece) = Some v)"
proof (intro exI conjI)
  show "DecodeBerryLockfile yamlUnmarshal contents s =
          ((fresh s', None),
           s'\<lparr>lockfiles := (lockfiles s')(fresh s' \<mapsto> yarnSplitOutEntries raw),
              fresh := Suc (fresh s')\<rparr>)"
    by (simp add: DecodeBerryLockfile_def assms(1) new_lockfile_def)
  show "dom (yarnSplitOutEntries raw) = (\<Union>(k, v) \<in> set raw. TrimSpace ` set (Split k '', ''))"
    by (simp add: yarnSplitOutEntries_def splitOut_dom pieces_def)
  show "\<forall>(k, v) \<in> set raw. \<forall>piece \<in> set (Split k '', '').
          yarnSplitOutEntries raw (TrimSpace piece) = Some v"
    using assms(2) by (auto simp: yarnSplitOutEntries_def pieces_def intro!: splitOut_consistent)
qed

theorem decode_splits_aliases_witness:
  "\<exists>m. DecodeBerryLockfile
          (parsedAs [(''a@^1.0.0, a@^1.1.0'', Ref 1)] [1 \<mapsto> plainEntry ''1.1.0''])
          ''bytes'' emptyStore
        = ((0, None),
           \<lparr>entries = [1 \<mapsto> plainEntry ''1.1.0''], lockfiles = [0 \<mapsto> m], fresh = 1\<rparr>)
      \<and> dom m = {''a@^1.0.0'', ''a@^1.1.0''}
      \<and> m ''a@^1.0.0'' = Some (Ref 1) \<and> m ''a@^1.1.0'' = Some (Ref 1)"
proof -
  let ?raw = "[(''a@^1.0.0, a@^1.1.0'', Ref 1)]"
  let ?heap = "[1 \<mapsto> plainEntry ''1.1.0'']"
  have a: "parsedAs ?raw ?heap ''bytes'' emptyStore
      = Inr (?raw, emptyStore\<lparr>entries := ?heap\<rparr>)"
    by (simp add: parsedAs_def emptyStore_def)
  have c: "alias_consistent ?raw"
    by (simp add: alias_consistent_def)
  have sp: "Split ''a@^1.0.0, a@^1.1.0'' '', '' = [''a@^1.0.0'', ''a@^1.1.0'']"
    by (simp add: Split_def)
  have t: "TrimSpace ''a@^1.0.0'' = ''a@^1.0.0''" "TrimSpace ''a@^1.1.0'' = ''a@^1.1.0''"
    by (simp_all add: TrimSpace_def spaceRunes_def)
  show ?thesis
    using decode_splits_aliases [where yamlUnmarshal = "parsedAs ?raw ?heap"
        and contents = "''bytes''" and s = emptyStore, OF a c]
    by (simp add: sp t insert_commute emptyStore_def)
qed

text \<open>
  The claim as it stands fails when two raw keys share a piece. The raw map with the keys
  \<open>''a, b''\<close> (entry 1) and \<open>''b''\<close> (entry 2), walked in this order, gives a
  lockfile where the two pieces of the raw key \<open>''a, b''\<close> point to different entries.
\<close>

theorem decode_alias_collision:
  "distinct (map fst [(''a, b'', Ref 1), (''b'', Ref 2)])
   \<and> pieces ''a, b'' = [''a'', ''b'']
   \<and> (\<exists>m. DecodeBerryLockfile
          (parsedAs [(''a, b'', Ref 1), (''b'', Ref 2)]
             [1 \<mapsto> plainEntry ''1.0.0'', 2 \<mapsto> plainEntry ''2.0.0''])
          ''bytes'' emptyStore
        = ((0, None),
           \<lparr>entries = [1 \<mapsto> plainEntry ''1.0.0'', 2 \<mapsto> plainEntry ''2.0.0''],
            lockfiles = [0 \<mapsto> m], fresh = 1\<rparr>)
      \<and> m ''a'' = Some (Ref 1) \<and> m ''b'' = Some (Ref 2))"
proof (intro conjI)
  show "distinct (map fst [(''a, b'', Ref 1), (''b'', Ref 2)])"
    by simp
  show "pieces ''a, b'' = [''a'', ''b'']"
    by (simp add: pieces_def Split_def TrimSpace_def spaceRunes_def)
  show "\<exists>m. DecodeBerryLockfile
          (parsedAs [(''a, b'', Ref 1), (''b'', Ref 2)]
             [1 \<mapsto> plainEntry ''1.0.0'', 2 \<mapsto> plainEntry ''2.0.0''])
          ''bytes'' emptyStore
        = ((0, None),
           \<lparr>entries = [1 \<mapsto> plainEntry ''1.0.0'', 2 \<mapsto> plainEntry ''2.0.0''],
            lockfiles = [0 \<mapsto> m], fresh = 1\<rparr>)
      \<and> m ''a'' = Some (Ref 1) \<and> m ''b'' = Some (Ref 2)"
    by (rule exI [of _ "[''a'' \<mapsto> Ref 1, ''b'' \<mapsto> Ref 2]"])
      (simp add: DecodeBerryLockfile_def new_lockfile_def yarnSplitOutEntries_def
        parsedAs_def emptyStore_def Split_def TrimSpace_def spaceRunes_def)
qed

subsection \<open>Resolution\<close>

lemma probeKeys_absent:
  assumes "lockfiles s l = Some m" and "\<forall>k \<in> set absent. m k = None"
  shows "probeKeys l (absent @ keys) s = probeKeys l keys s"
  using assms by (induction absent) auto

text \<open>
  C3 (as amended). Let the receiver be a lockfile. When the candidate list is
  \<open>absent @ key # rest\<close>, no key of \<open>absent\<close> is in the map and \<open>key\<close> is
  in the map with an Entry (a pointer that is not nil), the result is \<open>key\<close>, the
  Version of that Entry and \<open>True\<close>: the first candidate present wins, whatever
  follows it. When no candidate is in the map (the empty list included), the result is two
  empty strings and \<open>False\<close>, not a failure.
\<close>

theorem ResolvePackage_first_present:
  assumes "lockfiles s l = Some m"
  shows "(\<forall>absent key rest entry e.
            yarnPossibleKeys name version = absent @ key # rest
            \<and> (\<forall>k \<in> set absent. m k = None)
            \<and> m key = Some entry \<and> deref s entry = Some e
            \<longrightarrow> ResolvePackage yarnPossibleKeys l name version s
                  = Inr ((key, Version e, True), s))
       \<and> ((\<forall>k \<in> set (yarnPossibleKeys name version). m k = None)
            \<longrightarrow> ResolvePackage yarnPossibleKeys l name version s
                  = Inr (('''', '''', False), s))"
proof (intro conjI allI impI)
  fix absent key rest entry e
  assume h: "yarnPossibleKeys name version = absent @ key # rest
    \<and> (\<forall>k \<in> set absent. m k = None) \<and> m key = Some entry \<and> deref s entry = Some e"
  then have "probeKeys l (absent @ key # rest) s = probeKeys l (key # rest) s"
    using assms by (intro probeKeys_absent) auto
  with h assms show "ResolvePackage yarnPossibleKeys l name version s
      = Inr ((key, Version e, True), s)"
    by (simp add: ResolvePackage_def)
next
  assume "\<forall>k \<in> set (yarnPossibleKeys name version). m k = None"
  then have "probeKeys l (yarnPossibleKeys name version @ []) s = probeKeys l [] s"
    using assms by (intro probeKeys_absent) auto
  then show "ResolvePackage yarnPossibleKeys l name version s = Inr (('''', '''', False), s)"
    by (simp add: ResolvePackage_def)
qed

theorem ResolvePackage_first_present_witness:
  "ResolvePackage (\<lambda>name version. [name @ ''@'' @ version, name @ ''@npm:'' @ version])
      0 ''lodash'' ''^4.17.0''
      \<lparr>entries = [1 \<mapsto> \<lparr>Version = ''4.17.21'', Resolved = '''', Integrity = '''',
          Dependencies = [], OptionalDependencies = []\<rparr>],
       lockfiles = [0 \<mapsto> [''lodash@npm:^4.17.0'' \<mapsto> Ref 1]], fresh = 1\<rparr>
    = Inr ((''lodash@npm:^4.17.0'', ''4.17.21'', True),
      \<lparr>entries = [1 \<mapsto> \<lparr>Version = ''4.17.21'', Resolved = '''', Integrity = '''',
          Dependencies = [], OptionalDependencies = []\<rparr>],
       lockfiles = [0 \<mapsto> [''lodash@npm:^4.17.0'' \<mapsto> Ref 1]], fresh = 1\<rparr>)
   \<and> ResolvePackage (\<lambda>name version. [name @ ''@'' @ version, name @ ''@npm:'' @ version])
      0 ''react'' ''^18.0.0''
      \<lparr>entries = [1 \<mapsto> \<lparr>Version = ''4.17.21'', Resolved = '''', Integrity = '''',
          Dependencies = [], OptionalDependencies = []\<rparr>],
       lockfiles = [0 \<mapsto> [''lodash@npm:^4.17.0'' \<mapsto> Ref 1]], fresh = 1\<rparr>
    = Inr (('''', '''', False),
      \<lparr>entries = [1 \<mapsto> \<lparr>Version = ''4.17.21'', Resolved = '''', Integrity = '''',
          Dependencies = [], OptionalDependencies = []\<rparr>],
       lockfiles = [0 \<mapsto> [''lodash@npm:^4.17.0'' \<mapsto> Ref 1]], fresh = 1\<rparr>)"
proof -
  let ?e = "\<lparr>Version = ''4.17.21'', Resolved = '''', Integrity = '''',
          Dependencies = [], OptionalDependencies = []\<rparr>"
  let ?m = "[''lodash@npm:^4.17.0'' \<mapsto> Ref 1]"
  let ?s = "\<lparr>entries = [1 \<mapsto> ?e], lockfiles = [0 \<mapsto> ?m], fresh = 1\<rparr>"
  let ?keys = "\<lambda>name version. [name @ ''@'' @ version, name @ ''@npm:'' @ version]"
  have l: "lockfiles ?s 0 = Some ?m" by simp
  note hit = ResolvePackage_first_present [OF l, of ?keys "''lodash''" "''^4.17.0''",
      THEN conjunct1, rule_format, of "[''lodash@^4.17.0'']" "''lodash@npm:^4.17.0''" "[]"
        "Ref 1" ?e]
  have none: "\<forall>k \<in> set (?keys ''react'' ''^18.0.0''). ?m k = None"
    by simp
  note miss = ResolvePackage_first_present [OF l, of ?keys "''react''" "''^18.0.0''",
      THEN conjunct2, THEN mp, OF none]
  have "ResolvePackage ?keys 0 ''lodash'' ''^4.17.0'' ?s
      = Inr ((''lodash@npm:^4.17.0'', ''4.17.21'', True), ?s)"
    using hit by (simp add: deref_def)
  moreover have "ResolvePackage ?keys 0 ''react'' ''^18.0.0'' ?s = Inr (('''', '''', False), ?s)"
    using miss by simp
  ultimately show ?thesis by simp
qed

text \<open>
  The claim as it stands fails for a lockfile whose first candidate present holds no
  Entry. A key written without a value is read as a key with a nil pointer; decoding
  succeeds, and \<open>ResolvePackage\<close> on the decoded lockfile finds the key and reads
  the Version behind the nil pointer: a nil dereference, not a result.
\<close>

theorem ResolvePackage_nil_entry:
  "DecodeBerryLockfile (parsedAs [(''p@^1.0.0'', Nil)] Map.empty)
      (''p@^1.0.0:'' @ [CHR 0x0A]) emptyStore
     = ((0, None),
        \<lparr>entries = Map.empty, lockfiles = [0 \<mapsto> [''p@^1.0.0'' \<mapsto> Nil]], fresh = 1\<rparr>)
   \<and> ResolvePackage (\<lambda>name version. [name @ ''@'' @ version, name @ ''@npm:'' @ version])
        0 ''p'' ''^1.0.0''
        \<lparr>entries = Map.empty, lockfiles = [0 \<mapsto> [''p@^1.0.0'' \<mapsto> Nil]], fresh = 1\<rparr>
     = Inl NilDereference"
  by (simp add: DecodeBerryLockfile_def new_lockfile_def yarnSplitOutEntries_def parsedAs_def
      emptyStore_def Split_def TrimSpace_def spaceRunes_def ResolvePackage_def deref_def)

subsection \<open>Dependencies\<close>

lemma rangePut_distinct:
  "distinct (map fst xs) \<Longrightarrow> rangePut xs deps = deps ++ map_of xs"
proof (induction xs arbitrary: deps)
  case Nil
  show ?case by simp
next
  case (Cons x xs)
  obtain name version where x: "x = (name, version)" by (cases x)
  from Cons.prems have fresh: "map_of xs name = None" and d: "distinct (map fst xs)"
    by (auto simp: x map_of_eq_None_iff)
  have "rangePut (x # xs) deps = rangePut xs (deps(name \<mapsto> version))"
    by (simp add: x)
  also have "\<dots> = deps(name \<mapsto> version) ++ map_of xs"
    by (rule Cons.IH [OF d])
  also have "\<dots> = deps ++ map_of (x # xs)"
  proof
    fix k
    show "(deps(name \<mapsto> version) ++ map_of xs) k = (deps ++ map_of (x # xs)) k"
      using fresh by (cases "k = name") (auto simp: x map_add_def split: option.splits)
  qed
  finally show ?case .
qed

text \<open>
  C5 (as amended). Let the receiver be a lockfile. For a key that is not in the map the
  result is the empty mapping and \<open>False\<close>. For a key in the map with an Entry (a
  pointer that is not nil; the two Go maps of the Entry have, as every Go map, pairwise
  distinct keys) the result is \<open>True\<close> with the dependencies overlaid by the optional
  dependencies: its names are the names of both.
\<close>

theorem AllDependencies_union:
  assumes "lockfiles s l = Some m"
  shows "(m key = None \<longrightarrow> AllDependencies l key s = Inr ((Map.empty, False), s))
       \<and> (\<forall>entry e. m key = Some entry \<and> deref s entry = Some e
            \<and> distinct (map fst (Dependencies e))
            \<and> distinct (map fst (OptionalDependencies e))
            \<longrightarrow> (\<exists>deps. AllDependencies l key s = Inr ((deps, True), s)
                  \<and> deps = map_of (Dependencies e) ++ map_of (OptionalDependencies e)
                  \<and> dom deps = fst ` set (Dependencies e) \<union> fst ` set (OptionalDependencies e)))"
proof (intro conjI allI impI)
  assume "m key = None"
  with assms show "AllDependencies l key s = Inr ((Map.empty, False), s)"
    by (simp add: AllDependencies_def)
next
  fix entry e
  assume h: "m key = Some entry \<and> deref s entry = Some e
    \<and> distinct (map fst (Dependencies e)) \<and> distinct (map fst (OptionalDependencies e))"
  let ?deps = "map_of (Dependencies e) ++ map_of (OptionalDependencies e)"
  have "AllDependencies l key s = Inr ((?deps, True), s)"
    using assms h by (simp add: AllDependencies_def rangePut_distinct)
  moreover have "dom ?deps = fst ` set (Dependencies e) \<union> fst ` set (OptionalDependencies e)"
    by (auto simp: dom_map_of_conv_image_fst)
  ultimately show "\<exists>deps. AllDependencies l key s = Inr ((deps, True), s)
      \<and> deps = map_of (Dependencies e) ++ map_of (OptionalDependencies e)
      \<and> dom deps = fst ` set (Dependencies e) \<union> fst ` set (OptionalDependencies e)"
    by blast
qed

theorem AllDependencies_union_witness:
  "AllDependencies 0 ''a@^1.0.0''
      \<lparr>entries = [1 \<mapsto> \<lparr>Version = ''1.0.0'', Resolved = '''', Integrity = '''',
          Dependencies = [(''x'', ''^1.0.0'')], OptionalDependencies = [(''y'', ''^2.0.0'')]\<rparr>],
       lockfiles = [0 \<mapsto> [''a@^1.0.0'' \<mapsto> Ref 1]], fresh = 1\<rparr>
    = Inr (([''x'' \<mapsto> ''^1.0.0'', ''y'' \<mapsto> ''^2.0.0''], True),
      \<lparr>entries = [1 \<mapsto> \<lparr>Version = ''1.0.0'', Resolved = '''', Integrity = '''',
          Dependencies = [(''x'', ''^1.0.0'')], OptionalDependencies = [(''y'', ''^2.0.0'')]\<rparr>],
       lockfiles = [0 \<mapsto> [''a@^1.0.0'' \<mapsto> Ref 1]], fresh = 1\<rparr>)
   \<and> AllDependencies 0 ''b@^1.0.0''
      \<lparr>entries = [1 \<mapsto> \<lparr>Version = ''1.0.0'', Resolved = '''', Integrity = '''',
          Dependencies = [(''x'', ''^1.0.0'')], OptionalDependencies = [(''y'', ''^2.0.0'')]\<rparr>],
       lockfiles = [0 \<mapsto> [''a@^1.0.0'' \<mapsto> Ref 1]], fresh = 1\<rparr>
    = Inr ((Map.empty, False),
      \<lparr>entries = [1 \<mapsto> \<lparr>Version = ''1.0.0'', Resolved = '''', Integrity = '''',
          Dependencies = [(''x'', ''^1.0.0'')], OptionalDependencies = [(''y'', ''^2.0.0'')]\<rparr>],
       lockfiles = [0 \<mapsto> [''a@^1.0.0'' \<mapsto> Ref 1]], fresh = 1\<rparr>)"
proof -
  let ?e = "\<lparr>Version = ''1.0.0'', Resolved = '''', Integrity = '''',
          Dependencies = [(''x'', ''^1.0.0'')], OptionalDependencies = [(''y'', ''^2.0.0'')]\<rparr>"
  let ?m = "[''a@^1.0.0'' \<mapsto> Ref 1]"
  let ?s = "\<lparr>entries = [1 \<mapsto> ?e], lockfiles = [0 \<mapsto> ?m], fresh = 1\<rparr>"
  have l: "lockfiles ?s 0 = Some ?m" by simp
  have present: "?m ''a@^1.0.0'' = Some (Ref 1) \<and> deref ?s (Ref 1) = Some ?e
      \<and> distinct (map fst (Dependencies ?e)) \<and> distinct (map fst (OptionalDependencies ?e))"
    by (simp add: deref_def)
  have absent: "?m ''b@^1.0.0'' = None" by simp
  have u: "map_of (Dependencies ?e) ++ map_of (OptionalDependencies ?e)
      = [''x'' \<mapsto> ''^1.0.0'', ''y'' \<mapsto> ''^2.0.0'']"
    by (simp add: map_add_def fun_eq_iff)
  from AllDependencies_union [OF l, of "''a@^1.0.0''", THEN conjunct2, rule_format, OF present]
  have "AllDependencies 0 ''a@^1.0.0'' ?s
      = Inr (([''x'' \<mapsto> ''^1.0.0'', ''y'' \<mapsto> ''^2.0.0''], True), ?s)"
    unfolding u by blast
  moreover from AllDependencies_union [OF l, of "''b@^1.0.0''", THEN conjunct1, THEN mp, OF absent]
  have "AllDependencies 0 ''b@^1.0.0'' ?s = Inr ((Map.empty, False), ?s)" .
  ultimately show ?thesis by simp
qed

text \<open>
  The claim as it stands fails for a key that is in the map with no Entry. A key written
  without a value is read as a key with a nil pointer; decoding succeeds, and
  \<open>AllDependencies\<close> for this key of the decoded lockfile reads the dependencies
  behind the nil pointer: a nil dereference, not a mapping with \<open>True\<close>.
\<close>

theorem AllDependencies_nil_entry:
  "DecodeBerryLockfile (parsedAs [(''q@^2.0.0'', Nil)] Map.empty)
      (''q@^2.0.0:'' @ [CHR 0x0A]) emptyStore
     = ((0, None),
        \<lparr>entries = Map.empty, lockfiles = [0 \<mapsto> [''q@^2.0.0'' \<mapsto> Nil]], fresh = 1\<rparr>)
   \<and> AllDependencies 0 ''q@^2.0.0''
        \<lparr>entries = Map.empty, lockfiles = [0 \<mapsto> [''q@^2.0.0'' \<mapsto> Nil]], fresh = 1\<rparr>
     = Inl NilDereference"
  by (simp add: DecodeBerryLockfile_def new_lockfile_def yarnSplitOutEntries_def parsedAs_def
      emptyStore_def Split_def TrimSpace_def spaceRunes_def AllDependencies_def deref_def)

text \<open>
  C10. When a name is both in the dependencies and in the optional dependencies of the
  entry, the call still returns \<open>True\<close>, and the mapping gives that name the
  specifier of the optional dependencies.
\<close>

theorem AllDependencies_optional_wins:
  assumes "lockfiles s l = Some m" and "m key = Some entry" and "deref s entry = Some e"
    and "distinct (map fst (OptionalDependencies e))"
    and "(name, v1) \<in> set (Dependencies e)"
    and "(name, v2) \<in> set (OptionalDependencies e)"
  shows "\<exists>deps. AllDependencies l key s = Inr ((deps, True), s) \<and> deps name = Some v2"
proof -
  let ?deps = "rangePut (OptionalDependencies e) (rangePut (Dependencies e) Map.empty)"
  have "AllDependencies l key s = Inr ((?deps, True), s)"
    using assms(1-3) by (simp add: AllDependencies_def)
  moreover have "?deps name = Some v2"
    using assms(4,6) by (simp add: rangePut_distinct map_add_def)
  ultimately show ?thesis by blast
qed

theorem AllDependencies_optional_wins_witness:
  "\<exists>deps. AllDependencies 0 ''a@^1.0.0''
      \<lparr>entries = [1 \<mapsto> \<lparr>Version = ''1.0.0'', Resolved = '''', Integrity = '''',
          Dependencies = [(''x'', ''^1.0.0'')], OptionalDependencies = [(''x'', ''^2.0.0'')]\<rparr>],
       lockfiles = [0 \<mapsto> [''a@^1.0.0'' \<mapsto> Ref 1]], fresh = 1\<rparr>
    = Inr ((deps, True),
      \<lparr>entries = [1 \<mapsto> \<lparr>Version = ''1.0.0'', Resolved = '''', Integrity = '''',
          Dependencies = [(''x'', ''^1.0.0'')], OptionalDependencies = [(''x'', ''^2.0.0'')]\<rparr>],
       lockfiles = [0 \<mapsto> [''a@^1.0.0'' \<mapsto> Ref 1]], fresh = 1\<rparr>)
     \<and> deps ''x'' = Some ''^2.0.0''"
proof -
  let ?e = "\<lparr>Version = ''1.0.0'', Resolved = '''', Integrity = '''',
          Dependencies = [(''x'', ''^1.0.0'')], OptionalDependencies = [(''x'', ''^2.0.0'')]\<rparr>"
  let ?m = "[''a@^1.0.0'' \<mapsto> Ref 1]"
  let ?s = "\<lparr>entries = [1 \<mapsto> ?e], lockfiles = [0 \<mapsto> ?m], fresh = 1\<rparr>"
  have l: "lockfiles ?s 0 = Some ?m" by simp
  have k: "?m ''a@^1.0.0'' = Some (Ref 1)" by simp
  have d: "deref ?s (Ref 1) = Some ?e" by (simp add: deref_def)
  have o: "distinct (map fst (OptionalDependencies ?e))" by simp
  have r: "(''x'', ''^1.0.0'') \<in> set (Dependencies ?e)" by simp
  have p: "(''x'', ''^2.0.0'') \<in> set (OptionalDependencies ?e)" by simp
  show ?thesis
    by (rule AllDependencies_optional_wins [OF l k d o r p])
qed

subsection \<open>Nil entries\<close>

text \<open>
  The statements above are about keys that hold an Entry. Behind a key that holds a nil
  pointer there is no Entry, and reading its fields is a nil dereference.
\<close>

lemma nil_entry_panics:
  assumes "lockfiles s l = Some m" and "m key = Some Nil"
  shows "yarnPossibleKeys name version = key # rest
           \<Longrightarrow> ResolvePackage yarnPossibleKeys l name version s = Inl NilDereference"
    and "AllDependencies l key s = Inl NilDereference"
  using assms by (simp_all add: ResolvePackage_def AllDependencies_def deref_def)

subsection \<open>Subgraph\<close>

lemma subgraphLoop_result:
  assumes "lockfiles s l = Some m" and "lockfiles s lockfile = Some new" and "lockfile \<noteq> l"
  shows "subgraphLoop l lockfile packages s
       = Inr (s\<lparr>lockfiles := (lockfiles s)(lockfile \<mapsto> new ++ (m |` set packages))\<rparr>)"
  using assms
proof (induction packages arbitrary: s new)
  case Nil
  then show ?case by (simp add: map_upd_triv)
next
  case (Cons key packages)
  show ?case
  proof (cases "m key")
    case None
    then have "m |` set (key # packages) = m |` set packages"
      by (auto simp: restrict_map_def fun_eq_iff)
    with None Cons show ?thesis by simp
  next
    case (Some entry)
    let ?s = "s\<lparr>lockfiles := (lockfiles s)(lockfile \<mapsto> new(key \<mapsto> entry))\<rparr>"
    have step: "subgraphLoop l lockfile (key # packages) s = subgraphLoop l lockfile packages ?s"
      using Some Cons.prems by simp
    have "subgraphLoop l lockfile packages ?s
        = Inr (?s\<lparr>lockfiles := (lockfiles ?s)(lockfile \<mapsto> new(key \<mapsto> entry) ++ (m |` set packages))\<rparr>)"
      using Cons.prems by (intro Cons.IH) auto
    also have "new(key \<mapsto> entry) ++ (m |` set packages) = new ++ (m |` set (key # packages))"
      using Some by (auto simp: map_add_def restrict_map_def fun_eq_iff split: option.splits)
    also have "?s\<lparr>lockfiles := (lockfiles ?s)(lockfile \<mapsto> new ++ (m |` set (key # packages)))\<rparr>
        = s\<lparr>lockfiles := (lockfiles s)(lockfile \<mapsto> new ++ (m |` set (key # packages)))\<rparr>"
      by simp
    finally show ?thesis
      by (simp only: step)
  qed
qed

lemma Subgraph_result:
  assumes "store_ok s" and "lockfiles s l = Some m"
  shows "Subgraph l paths packages s
       = Inr ((fresh s, None),
           s\<lparr>lockfiles := (lockfiles s)(fresh s \<mapsto> m |` set packages), fresh := Suc (fresh s)\<rparr>)"
proof -
  from assms have ne: "fresh s \<noteq> l"
    by (auto simp: store_ok_def)
  let ?s = "s\<lparr>lockfiles := (lockfiles s)(fresh s \<mapsto> Map.empty), fresh := Suc (fresh s)\<rparr>"
  have "subgraphLoop l (fresh s) packages ?s
      = Inr (?s\<lparr>lockfiles := (lockfiles ?s)(fresh s \<mapsto> Map.empty ++ (m |` set packages))\<rparr>)"
    using assms(2) ne by (intro subgraphLoop_result) auto
  then show ?thesis
    by (simp add: Subgraph_def new_lockfile_def)
qed

text \<open>
  C4. On a lockfile, \<open>Subgraph\<close> does not panic and returns a nil error and the
  address of a map object that did not exist before. The keys of the new map are the keys
  of the list that are in the source map, each with the pointer the source holds for it;
  no entry object is added or changed and the source map is as it was. The empty list
  gives the empty map.
\<close>

theorem Subgraph_restricts:
  assumes "store_ok s" and "lockfiles s l = Some m"
  shows "\<exists>new s'. Subgraph l paths packages s = Inr ((fresh s, None), s')
           \<and> lockfiles s' (fresh s) = Some new
           \<and> lockfiles s (fresh s) = None
           \<and> dom new = set packages \<inter> dom m
           \<and> (\<forall>key \<in> dom new. new key = m key)
           \<and> entries s' = entries s
           \<and> lockfiles s' l = Some m
           \<and> (packages = [] \<longrightarrow> new = Map.empty)"
proof -
  let ?new = "m |` set packages"
  let ?s' = "s\<lparr>lockfiles := (lockfiles s)(fresh s \<mapsto> ?new), fresh := Suc (fresh s)\<rparr>"
  have "Subgraph l paths packages s = Inr ((fresh s, None), ?s')"
    using assms by (rule Subgraph_result)
  moreover have "lockfiles ?s' (fresh s) = Some ?new" by simp
  moreover have "lockfiles s (fresh s) = None"
    using assms(1) by (simp add: store_ok_def)
  moreover have "dom ?new = set packages \<inter> dom m" by auto
  moreover have "\<forall>key \<in> dom ?new. ?new key = m key" by auto
  moreover have "entries ?s' = entries s" by simp
  moreover have "lockfiles ?s' l = Some m"
    using assms by (auto simp: store_ok_def)
  moreover have "packages = [] \<longrightarrow> ?new = Map.empty" by simp
  ultimately show ?thesis by blast
qed

theorem Subgraph_restricts_witness:
  "\<exists>new s'. Subgraph 0 [] [''k1'', ''k3'']
       \<lparr>entries = [1 \<mapsto> \<lparr>Version = ''1.0.0'', Resolved = '''', Integrity = '''',
           Dependencies = [], OptionalDependencies = []\<rparr>,
          2 \<mapsto> \<lparr>Version = ''2.0.0'', Resolved = '''', Integrity = '''',
           Dependencies = [], OptionalDependencies = []\<rparr>],
        lockfiles = [0 \<mapsto> [''k1'' \<mapsto> Ref 1, ''k2'' \<mapsto> Ref 2]], fresh = 1\<rparr>
      = Inr ((1, None), s')
    \<and> lockfiles s' 1 = Some new \<and> dom new = {''k1''} \<and> new ''k1'' = Some (Ref 1)
    \<and> lockfiles s' 0 = Some [''k1'' \<mapsto> Ref 1, ''k2'' \<mapsto> Ref 2]"
proof -
  let ?e1 = "\<lparr>Version = ''1.0.0'', Resolved = '''', Integrity = '''',
           Dependencies = [], OptionalDependencies = []\<rparr>"
  let ?e2 = "\<lparr>Version = ''2.0.0'', Resolved = '''', Integrity = '''',
           Dependencies = [], OptionalDependencies = []\<rparr>"
  let ?m = "[''k1'' \<mapsto> Ref 1, ''k2'' \<mapsto> Ref 2]"
  let ?s = "\<lparr>entries = [1 \<mapsto> ?e1, 2 \<mapsto> ?e2], lockfiles = [0 \<mapsto> ?m], fresh = 1\<rparr>"
  have ok: "store_ok ?s" by (simp add: store_ok_def)
  have l: "lockfiles ?s 0 = Some ?m" by simp
  from Subgraph_restricts [OF ok l, of "[]" "[''k1'', ''k3'']"]
  obtain new s' where r: "Subgraph 0 [] [''k1'', ''k3''] ?s = Inr ((fresh ?s, None), s')"
    "lockfiles s' (fresh ?s) = Some new" "dom new = set [''k1'', ''k3''] \<inter> dom ?m"
    "\<forall>key \<in> dom new. new key = ?m key" "lockfiles s' 0 = Some ?m"
    by blast
  from r(3) have d: "dom new = {''k1''}" by auto
  with r(4) have "new ''k1'' = Some (Ref 1)" by simp
  then show ?thesis using r(1,2,5) d by auto
qed

subsection \<open>What the operations leave unchanged\<close>

lemma probeKeys_store:
  "probeKeys l keys s = Inr (r, s') \<Longrightarrow> s' = s"
  by (induction keys) (auto split: option.splits)

text \<open>
  C9. \<open>ResolvePackage\<close> and \<open>AllDependencies\<close>, when they return, return the
  store they were given; so does \<open>Encode\<close>, whatever the serializer and the writer
  do. \<open>Subgraph\<close> on a lockfile adds one map object and leaves the receiver's
  map, every other map object and every entry as they were.
\<close>

theorem operations_leave_lockfile_unchanged:
  "(ResolvePackage yarnPossibleKeys l name version s = Inr (r1, s1) \<longrightarrow> s1 = s)
 \<and> (AllDependencies l key s = Inr (r2, s2) \<longrightarrow> s2 = s)
 \<and> (store_ok s \<and> lockfiles s l = Some m \<and> Subgraph l paths packages s = Inr (r3, s3)
      \<longrightarrow> lockfiles s3 l = Some m \<and> entries s3 = entries s
          \<and> (\<forall>a. lockfiles s a \<noteq> None \<longrightarrow> lockfiles s3 a = lockfiles s a))
 \<and> snd (Encode yamlEncode writeString l w s) = s"
proof (intro conjI impI)
  assume "ResolvePackage yarnPossibleKeys l name version s = Inr (r1, s1)"
  then show "s1 = s"
    by (simp add: ResolvePackage_def probeKeys_store)
next
  assume "AllDependencies l key s = Inr (r2, s2)"
  then show "s2 = s"
    by (auto simp: AllDependencies_def split: option.splits)
next
  assume h: "store_ok s \<and> lockfiles s l = Some m \<and> Subgraph l paths packages s = Inr (r3, s3)"
  then have s3: "s3 = s\<lparr>lockfiles := (lockfiles s)(fresh s \<mapsto> m |` set packages),
      fresh := Suc (fresh s)\<rparr>"
    using Subgraph_result [of s l m paths packages] by simp
  from h have free: "lockfiles s (fresh s) = None"
    by (simp add: store_ok_def)
  show "lockfiles s3 l = Some m"
    using h free by (auto simp: s3)
  show "entries s3 = entries s"
    by (simp add: s3)
  show "\<forall>a. lockfiles s a \<noteq> None \<longrightarrow> lockfiles s3 a = lockfiles s a"
    using free by (auto simp: s3)
next
  show "snd (Encode yamlEncode writeString l w s) = s"
    by (simp add: Encode_def split: sum.splits prod.splits option.splits)
qed

theorem operations_leave_lockfile_unchanged_witness:
  "(\<exists>r. ResolvePackage (\<lambda>name version. [name @ ''@'' @ version]) 0 ''k'' ''1''
      \<lparr>entries = [1 \<mapsto> \<lparr>Version = ''1.0.0'', Resolved = '''', Integrity = '''',
          Dependencies = [], OptionalDependencies = []\<rparr>],
       lockfiles = [0 \<mapsto> [''k@1'' \<mapsto> Ref 1]], fresh = 1\<rparr>
     = Inr (r, \<lparr>entries = [1 \<mapsto> \<lparr>Version = ''1.0.0'', Resolved = '''', Integrity = '''',
          Dependencies = [], OptionalDependencies = []\<rparr>],
       lockfiles = [0 \<mapsto> [''k@1'' \<mapsto> Ref 1]], fresh = 1\<rparr>))
 \<and> (\<exists>r. AllDependencies 0 ''k@1''
      \<lparr>entries = [1 \<mapsto> \<lparr>Version = ''1.0.0'', Resolved = '''', Integrity = '''',
          Dependencies = [], OptionalDependencies = []\<rparr>],
       lockfiles = [0 \<mapsto> [''k@1'' \<mapsto> Ref 1]], fresh = 1\<rparr>
     = Inr (r, \<lparr>entries = [1 \<mapsto> \<lparr>Version = ''1.0.0'', Resolved = '''', Integrity = '''',
          Dependencies = [], OptionalDependencies = []\<rparr>],
       lockfiles = [0 \<mapsto> [''k@1'' \<mapsto> Ref 1]], fresh = 1\<rparr>))
 \<and> (\<exists>r s3. Subgraph 0 [] [''k@1'']
      \<lparr>entries = [1 \<mapsto> \<lparr>Version = ''1.0.0'', Resolved = '''', Integrity = '''',
          Dependencies = [], OptionalDependencies = []\<rparr>],
       lockfiles = [0 \<mapsto> [''k@1'' \<mapsto> Ref 1]], fresh = 1\<rparr>
     = Inr (r, s3) \<and> lockfiles s3 0 = Some [''k@1'' \<mapsto> Ref 1]
       \<and> entries s3 = [1 \<mapsto> \<lparr>Version = ''1.0.0'', Resolved = '''', Integrity = '''',
          Dependencies = [], OptionalDependencies = []\<rparr>])
 \<and> snd (Encode (\<lambda>view. Inr (''k@1:'' @ [CHR 0x0A] @ ''  version: 1.0.0'' @ [CHR 0x0A]))
      bufferWrite 0 []
      \<lparr>entries = [1 \<mapsto> \<lparr>Version = ''1.0.0'', Resolved = '''', Integrity = '''',
          Dependencies = [], OptionalDependencies = []\<rparr>],
       lockfiles = [0 \<mapsto> [''k@1'' \<mapsto> Ref 1]], fresh = 1\<rparr>)
     = \<lparr>entries = [1 \<mapsto> \<lparr>Version = ''1.0.0'', Resolved = '''', Integrity = '''',
          Dependencies = [], OptionalDependencies = []\<rparr>],
       lockfiles = [0 \<mapsto> [''k@1'' \<mapsto> Ref 1]], fresh = 1\<rparr>"
proof -
  let ?e = "\<lparr>Version = ''1.0.0'', Resolved = '''', Integrity = '''',
          Dependencies = [], OptionalDependencies = []\<rparr>"
  let ?m = "[''k@1'' \<mapsto> Ref 1]"
  let ?s = "\<lparr>entries = [1 \<mapsto> ?e], lockfiles = [0 \<mapsto> ?m], fresh = 1\<rparr>"
  let ?keys = "\<lambda>name version. [name @ ''@'' @ version]"
  let ?yaml = "\<lambda>view :: (string \<rightharpoonup> YarnLockfileEntry option) option.
      Inr (''k@1:'' @ [CHR 0x0A] @ ''  version: 1.0.0'' @ [CHR 0x0A]) :: string + string"
  obtain r1 s1 where a: "ResolvePackage ?keys 0 ''k'' ''1'' ?s = Inr (r1, s1)"
    by (simp add: ResolvePackage_def deref_def)
  obtain r2 s2 where b: "AllDependencies 0 ''k@1'' ?s = Inr (r2, s2)"
    by (simp add: AllDependencies_def deref_def)
  obtain r3 s3 where c: "Subgraph 0 [] [''k@1''] ?s = Inr (r3, s3)"
    by (simp add: Subgraph_def new_lockfile_def)
  have ok: "store_ok ?s" by (simp add: store_ok_def)
  have l: "lockfiles ?s 0 = Some ?m" by simp
  note inst = operations_leave_lockfile_unchanged [of ?keys 0 "''k''" "''1''" ?s r1 s1
      "''k@1''" r2 s2 ?m "[]" "[''k@1'']" r3 s3 ?yaml bufferWrite "[]"]
  from inst a have "s1 = ?s" by blast
  with a have A: "\<exists>r. ResolvePackage ?keys 0 ''k'' ''1'' ?s = Inr (r, ?s)" by blast
  from inst b have "s2 = ?s" by blast
  with b have B: "\<exists>r. AllDependencies 0 ''k@1'' ?s = Inr (r, ?s)" by blast
  from inst ok l c have "lockfiles s3 0 = Some ?m \<and> entries s3 = entries ?s" by blast
  with c have C: "\<exists>r s3. Subgraph 0 [] [''k@1''] ?s = Inr (r, s3)
      \<and> lockfiles s3 0 = Some ?m \<and> entries s3 = [1 \<mapsto> ?e]"
    by auto
  from inst have D: "snd (Encode ?yaml bufferWrite 0 [] ?s) = ?s" by blast
  from A B C D show ?thesis by (intro conjI)
qed

subsection \<open>Error messages\<close>

lemma sublist_append_no_straddle:
  assumes "\<not> sublist xs ys"
    and "\<forall>xs1 \<in> set (prefixes xs). xs1 \<noteq> [] \<longrightarrow> \<not> suffix xs1 ys"
  shows "sublist xs (ys @ zs) \<longleftrightarrow> sublist xs zs"
proof
  assume "sublist xs (ys @ zs)"
  then consider "sublist xs ys" | "sublist xs zs"
    | xs1 xs2 where "xs = xs1 @ xs2" "suffix xs1 ys" "prefix xs2 zs"
    by (auto simp: sublist_append)
  then show "sublist xs zs"
  proof cases
    case 1
    with assms(1) show ?thesis by simp
  next
    case 2
    then show ?thesis .
  next
    case 3
    then have "xs1 \<in> set (prefixes xs)"
      by (simp add: in_set_prefixes)
    with assms(2) 3(2) have "xs1 = []" by blast
    with 3 show ?thesis by (auto intro: prefix_imp_sublist)
  qed
next
  assume "sublist xs zs"
  then show "sublist xs (ys @ zs)"
    by (simp add: sublist_append)
qed

lemma decode_prefix_has_no_hint:
  "mentionsCorruption (''could not unmarshal lockfile: '' @ err) = mentionsCorruption err"
proof -
  have 1: "sublist ''corrupt'' (''could not unmarshal lockfile: '' @ err)
      \<longleftrightarrow> sublist ''corrupt'' err"
    by (rule sublist_append_no_straddle) (simp_all add: suffix_to_prefix sublist_code)
  have 2: "sublist ''merge conflict'' (''could not unmarshal lockfile: '' @ err)
      \<longleftrightarrow> sublist ''merge conflict'' err"
    by (rule sublist_append_no_straddle) (simp_all add: suffix_to_prefix sublist_code)
  show ?thesis
    unfolding mentionsCorruption_def 1 2 ..
qed

text \<open>
  C7 (as amended). When the parser fails, decoding fails with the message
  \<open>''could not unmarshal lockfile: ''\<close> followed by the parser's own message; it
  names corruption or merge conflicts exactly when the parser's message does, so the
  decoder adds no such hint. The hint is in the message of \<open>Encode\<close> when the
  serializer fails.
\<close>

theorem decode_error_message:
  "(yamlUnmarshal contents s = Inl err \<longrightarrow>
      (\<exists>msg. snd (fst (DecodeBerryLockfile yamlUnmarshal contents s)) = Some msg
         \<and> msg = ''could not unmarshal lockfile: '' @ err
         \<and> mentionsCorruption msg = mentionsCorruption err))
 \<and> (yamlEncode (lockfileView s l) = Inl err \<longrightarrow>
      (\<exists>msg. fst (fst (Encode yamlEncode writeString l w s)) = Some msg
         \<and> mentionsCorruption msg))"
proof (intro conjI impI)
  assume "yamlUnmarshal contents s = Inl err"
  then have "snd (fst (DecodeBerryLockfile yamlUnmarshal contents s))
      = Some (''could not unmarshal lockfile: '' @ err)"
    by (simp add: DecodeBerryLockfile_def new_lockfile_def)
  then show "\<exists>msg. snd (fst (DecodeBerryLockfile yamlUnmarshal contents s)) = Some msg
         \<and> msg = ''could not unmarshal lockfile: '' @ err
         \<and> mentionsCorruption msg = mentionsCorruption err"
    using decode_prefix_has_no_hint [of err] by blast
next
  assume "yamlEncode (lockfileView s l) = Inl err"
  moreover have "mentionsCorruption ((''failed to materialize sub-lockfile. This can happen if your ''
              @ ''lockfile contains merge conflicts or is somehow corrupted. Please report ''
              @ ''this if it occurs'') @ '': '' @ err)"
  proof -
    let ?mid = "''lockfile contains merge conflicts or is somehow corrupted. Please report ''"
    have "sublist ''corrupt'' ?mid"
      by (simp add: sublist_code)
    also have "sublist ?mid (''failed to materialize sub-lockfile. This can happen if your ''
        @ ?mid @ (''this if it occurs'' @ '': '' @ err))"
      by (rule sublist_appendI)
    finally show ?thesis
      by (simp only: mentionsCorruption_def append_assoc) simp
  qed
  ultimately show "\<exists>msg. fst (fst (Encode yamlEncode writeString l w s)) = Some msg
         \<and> mentionsCorruption msg"
    by (simp add: Encode_def Wrap_def)
qed

text \<open>
  The claim as it stands fails: on bytes with a conflict marker, and a parser message that
  says nothing about corruption, the decoder's message says nothing about it either.
\<close>

theorem decode_error_without_hint:
  "snd (fst (DecodeBerryLockfile
      (\<lambda>contents s. Inl ''yaml: line 2: did not find expected key'')
      (''a:'' @ [CHR 0x0A] @ ''<<<<<<< HEAD'' @ [CHR 0x0A] @ ''  version: 1.0.0'' @ [CHR 0x0A])
      \<lparr>entries = Map.empty, lockfiles = Map.empty, fresh = 0\<rparr>))
     = Some ''could not unmarshal lockfile: yaml: line 2: did not find expected key''
   \<and> \<not> mentionsCorruption
        ''could not unmarshal lockfile: yaml: line 2: did not find expected key''"
  by (simp add: DecodeBerryLockfile_def new_lockfile_def mentionsCorruption_def sublist_code)

theorem decode_error_message_witness:
  "snd (fst (DecodeBerryLockfile
      (\<lambda>contents s. Inl ''yaml: line 3: could not find expected key'')
      (''a:'' @ [CHR 0x0A] @ ''  version: 1.0.0'' @ [CHR 0x0A] @ ''  resol'')
      \<lparr>entries = Map.empty, lockfiles = Map.empty, fresh = 0\<rparr>))
     = Some ''could not unmarshal lockfile: yaml: line 3: could not find expected key''
   \<and> (\<exists>msg. fst (fst (Encode (\<lambda>view. Inl ''yaml: cannot marshal'') bufferWrite 0 []
              \<lparr>entries = Map.empty, lockfiles = [0 \<mapsto> Map.empty], fresh = 1\<rparr>)) = Some msg
         \<and> mentionsCorruption msg)"
proof -
  let ?parse = "\<lambda>(contents :: string) (s :: store).
    Inl ''yaml: line 3: could not find expected key'' :: string + ((string \<times> ptr) list \<times> store)"
  let ?yaml = "\<lambda>view :: (string \<rightharpoonup> YarnLockfileEntry option) option.
    Inl ''yaml: cannot marshal'' :: string + string"
  let ?bytes = "''a:'' @ [CHR 0x0A] @ ''  version: 1.0.0'' @ [CHR 0x0A] @ ''  resol''"
  let ?s0 = "\<lparr>entries = Map.empty, lockfiles = Map.empty, fresh = 0\<rparr>"
  let ?s1 = "\<lparr>entries = Map.empty, lockfiles = [0 \<mapsto> Map.empty], fresh = 1\<rparr>"
  have a: "?parse ?bytes ?s0 = Inl ''yaml: line 3: could not find expected key''" by simp
  have b: "?yaml (lockfileView ?s1 0) = Inl ''yaml: cannot marshal''" by simp
  from decode_error_message [where yamlUnmarshal = ?parse and contents = ?bytes and s = ?s0
      and err = "''yaml: line 3: could not find expected key''", THEN conjunct1, THEN mp, OF a]
  have "snd (fst (DecodeBerryLockfile ?parse ?bytes ?s0))
      = Some ''could not unmarshal lockfile: yaml: line 3: could not find expected key''"
    by auto
  moreover from decode_error_message [where err = "''yaml: cannot marshal''"
      and yamlEncode = ?yaml and s = ?s1 and l = 0 and writeString = bufferWrite and w = "[]",
      THEN conjunct2, THEN mp, OF b]
  have "\<exists>msg. fst (fst (Encode ?yaml bufferWrite 0 [] ?s1)) = Some msg \<and> mentionsCorruption msg" .
  ultimately show ?thesis by (intro conjI)
qed

subsection \<open>The scanner and the loop of the encoder\<close>

lemma textLines_Nil [simp]: "textLines [] = []"
  by (simp add: textLines.simps)

lemma scanTokens_Nil [simp]: "scanTokens limit [] = []"
  by (simp add: scanTokens.simps)

lemma textLines_no_linefeed:
  "line \<in> set (textLines data) \<Longrightarrow> CHR 0x0A \<notin> set line"
proof (induction data rule: textLines.induct)
  case (1 data)
  show ?case
  proof (cases "data = []")
    case True
    with "1.prems" show ?thesis by simp
  next
    case False
    note ne = this
    show ?thesis
    proof (cases "dropWhile (\<lambda>c. c \<noteq> CHR 0x0A) data")
      case Nil
      from ne "1.prems" have "line = takeWhile (\<lambda>c. c \<noteq> CHR 0x0A) data"
        by (subst (asm) textLines.simps) (simp add: Nil)
      then show ?thesis
        by (auto dest: set_takeWhileD)
    next
      case (Cons lf rest)
      from ne "1.prems" have "line = takeWhile (\<lambda>c. c \<noteq> CHR 0x0A) data \<or> line \<in> set (textLines rest)"
        by (subst (asm) textLines.simps) (simp add: Cons)
      then show ?thesis
      proof
        assume "line = takeWhile (\<lambda>c. c \<noteq> CHR 0x0A) data"
        then show ?thesis by (auto dest: set_takeWhileD)
      next
        assume "line \<in> set (textLines rest)"
        with ne Cons show ?thesis by (rule "1.IH")
      qed
    qed
  qed
qed

lemma scanTokens_textLines:
  "\<forall>line \<in> set (textLines data). length line < limit
   \<Longrightarrow> scanTokens limit data = map dropCR (textLines data)"
proof (induction data rule: textLines.induct)
  case (1 data)
  show ?case
  proof (cases "data = []")
    case True
    then show ?thesis by simp
  next
    case False
    note ne = this
    let ?line = "takeWhile (\<lambda>c. c \<noteq> CHR 0x0A) data"
    have tl: "textLines data = ?line #
        (case dropWhile (\<lambda>c. c \<noteq> CHR 0x0A) data of [] \<Rightarrow> [] | lf # rest \<Rightarrow> textLines rest)"
      using ne by (subst textLines.simps) simp
    with "1.prems" have short: "length ?line < limit"
      by simp
    show ?thesis
    proof (cases "dropWhile (\<lambda>c. c \<noteq> CHR 0x0A) data")
      case Nil
      from ne short show ?thesis
        by (subst scanTokens.simps, subst textLines.simps) (simp add: Nil)
    next
      case (Cons lf rest)
      from "1.prems" have "\<forall>line \<in> set (textLines rest). length line < limit"
        by (subst (asm) textLines.simps) (simp add: ne Cons)
      with ne Cons have "scanTokens limit rest = map dropCR (textLines rest)"
        by (intro "1.IH")
      with ne short show ?thesis
        by (subst scanTokens.simps, subst textLines.simps) (simp add: Cons)
    qed
  qed
qed

text \<open>A line that does not fit the buffer ends the scan: nothing after it is seen.\<close>

lemma scanTokens_long_line:
  "data \<noteq> [] \<Longrightarrow> limit \<le> length (takeWhile (\<lambda>c. c \<noteq> CHR 0x0A) data)
   \<Longrightarrow> scanTokens limit data = []"
  by (simp add: scanTokens.simps)

lemma writeLines_buffer:
  "writeLines bufferWrite toks w = (None, w @ unlines (outputLines toks))"
  by (induction toks arbitrary: w)
    (simp_all add: bufferWrite_def unlines_def outputLines_def)

text \<open>
  With the in-memory sink, \<open>Encode\<close> appends the header and the output lines of what
  the scanner yields.
\<close>

lemma Encode_buffer_bytes:
  assumes "yamlEncode (lockfileView s l) = Inr tmp"
  shows "Encode yamlEncode bufferWrite l w s
       = ((None, w @ fileHeader @ unlines (outputLines (scanTokens maxTokenSize tmp))), s)"
proof -
  have "bufferWrite w fileHeader = (w @ fileHeader, None)"
    by (simp add: bufferWrite_def)
  then show ?thesis
    by (simp add: Encode_def assms writeLines_buffer)
qed

text \<open>
  When the first line of the serialized text does not fit the scanner's buffer, the
  header is all that is written, and no error is returned.
\<close>

lemma Encode_cuts_at_long_line:
  assumes "yamlEncode (lockfileView s l) = Inr tmp" and "tmp \<noteq> []"
    and "maxTokenSize \<le> length (takeWhile (\<lambda>c. c \<noteq> CHR 0x0A) tmp)"
  shows "Encode yamlEncode bufferWrite l w s = ((None, w @ fileHeader), s)"
  using assms
  by (simp add: Encode_buffer_bytes scanTokens_long_line outputLines_def unlines_def)

lemma outputLines_no_quote:
  "CHR 0x27 \<notin> set (unlines (outputLines toks))"
  by (induction toks) (auto simp: unlines_def outputLines_def ReplaceAll_def)

lemma outputLines_concat:
  "concat (outputLines toks) = ReplaceAll (concat toks) (CHR 0x27) (CHR 0x22)"
  by (induction toks) (auto simp: outputLines_def ReplaceAll_def)

lemma outputLines_no_linefeed:
  "\<forall>t \<in> set toks. CHR 0x0A \<notin> set t
   \<Longrightarrow> \<forall>line \<in> set (outputLines toks). CHR 0x0A \<notin> set line"
  by (induction toks) (auto simp: outputLines_def ReplaceAll_def)

lemma dropCR_subset: "set (dropCR data) \<subseteq> set data"
  by (auto simp: dropCR_def dest: in_set_butlastD)

lemma outputLines_snoc:
  "outputLines (toks @ [t]) =
     outputLines toks @
       (if prefix '' '' t then [ReplaceAll t (CHR 0x27) (CHR 0x22)]
        else [[], ReplaceAll t (CHR 0x27) (CHR 0x22)])"
  by (simp add: outputLines_def)

lemma ReplaceAll_quote_shape:
  "ReplaceAll t (CHR 0x27) (CHR 0x22) = [] \<longleftrightarrow> t = []"
  "prefix '' '' (ReplaceAll t (CHR 0x27) (CHR 0x22)) \<longleftrightarrow> prefix '' '' t"
  by (cases t; simp add: ReplaceAll_def)+

lemma outputLines_last:
  "toks \<noteq> [] \<Longrightarrow> \<forall>t \<in> set toks. t \<noteq> []
   \<Longrightarrow> outputLines toks \<noteq> [] \<and> last (outputLines toks) \<noteq> []"
  by (induction toks rule: rev_induct) (auto simp: outputLines_snoc ReplaceAll_quote_shape)

lemma outputLines_set_apart:
  "\<forall>t \<in> set toks. t \<noteq> [] \<Longrightarrow> blocks_set_apart (outputLines toks)"
proof (induction toks rule: rev_induct)
  case Nil
  show ?case by (simp add: blocks_set_apart_def outputLines_def)
next
  case (snoc t toks)
  let ?q = "ReplaceAll t (CHR 0x27) (CHR 0x22)"
  let ?chunk = "if prefix '' '' t then [?q] else [[], ?q]"
  from snoc.prems have IH: "blocks_set_apart (outputLines toks)"
    by (intro snoc.IH) simp
  have ends: "outputLines toks = [] \<or> last (outputLines toks) \<noteq> []"
  proof (cases "toks = []")
    case True
    then show ?thesis by (simp add: outputLines_def)
  next
    case False
    with snoc.prems show ?thesis by (simp add: outputLines_last)
  qed
  show ?case
    unfolding blocks_set_apart_def
  proof (intro allI impI)
    fix pre line post
    assume h: "outputLines (toks @ [t]) = pre @ line # post \<and> topLevelLine line"
    then have split: "outputLines toks @ ?chunk = pre @ line # post" and top: "topLevelLine line"
      by (simp_all add: outputLines_snoc)
    from split obtain us where us:
      "(outputLines toks = pre @ us \<and> us @ ?chunk = line # post)
       \<or> (outputLines toks @ us = pre \<and> ?chunk = us @ line # post)"
      by (auto simp: append_eq_append_conv2)
    have "(\<exists>us'. outputLines toks = pre @ line # us')
        \<or> (pre = outputLines toks \<and> ?chunk = line # post)
        \<or> (us \<noteq> [] \<and> pre = outputLines toks @ us \<and> ?chunk = us @ line # post)"
    proof (cases us)
      case Nil
      with us show ?thesis by auto
    next
      case (Cons u us')
      with us show ?thesis by auto
    qed
    then consider
        (old) us' where "outputLines toks = pre @ line # us'"
      | (first) "pre = outputLines toks" "?chunk = line # post"
      | (later) "us \<noteq> []" "pre = outputLines toks @ us" "?chunk = us @ line # post"
      by blast
    then show "\<exists>before. pre = before @ [[]] \<and> (before = [] \<or> last before \<noteq> [])"
    proof cases
      case old
      with IH top show ?thesis
        unfolding blocks_set_apart_def by blast
    next
      case first
      then have "line = ?q \<and> prefix '' '' t \<or> line = []"
        by (auto split: if_splits)
      with top show ?thesis
        by (auto simp: topLevelLine_def ReplaceAll_quote_shape)
    next
      case later
      then have "us = [[]]"
        by (auto split: if_splits simp: Cons_eq_append_conv)
      with later ends show ?thesis by simp
    qed
  qed
qed

lemma fileHeader_headerLines: "fileHeader = unlines headerLines"
  by (simp add: fileHeader_def unlines_def headerLines_def)

lemma unlines_append: "unlines (xs @ ys) = unlines xs @ unlines ys"
  by (simp add: unlines_def)

lemma headerLines_no_linefeed: "\<forall>line \<in> set headerLines. CHR 0x0A \<notin> set line"
  by (simp add: headerLines_def)

text \<open>Lines without a line feed are the lines of their text.\<close>

lemma textLines_unlines:
  "\<forall>line \<in> set ls. CHR 0x0A \<notin> set line \<Longrightarrow> textLines (unlines ls) = ls"
proof (induction ls)
  case Nil
  show ?case by (simp add: unlines_def)
next
  case (Cons line ls)
  let ?data = "line @ CHR 0x0A # unlines ls"
  from Cons.prems have nolf: "CHR 0x0A \<notin> set line" by simp
  have u: "unlines (line # ls) = ?data"
    by (simp add: unlines_def)
  from nolf have all: "\<forall>c \<in> set line. c \<noteq> CHR 0x0A" by auto
  then have tw: "takeWhile (\<lambda>c. c \<noteq> CHR 0x0A) ?data = line"
    by (simp add: takeWhile_append2)
  from all have dw: "dropWhile (\<lambda>c. c \<noteq> CHR 0x0A) ?data = CHR 0x0A # unlines ls"
    by (simp add: dropWhile_append2)
  have "textLines ?data = line # textLines (unlines ls)"
    by (subst textLines.simps) (simp add: tw dw)
  with Cons show ?case
    by (simp add: u)
qed

text \<open>
  The empty lines before a top-level line of the output, counted in the whole output:
  two for the first line that the loop writes, one for every other line.
\<close>

lemma outputLines_blank_runs:
  assumes "\<forall>t \<in> set toks. t \<noteq> []"
    and "headerLines @ outputLines toks = pre @ line # post"
    and "length headerLines \<le> length pre" and "topLevelLine line"
  shows "blankRun pre = (if pre = headerLines @ [[]] then 2 else 1)"
proof -
  from assms(2) have "take (length headerLines) (pre @ line # post) = headerLines"
    and "drop (length headerLines) (pre @ line # post) = outputLines toks"
    by (metis append_eq_conv_conj)+
  with assms(3) have pre: "pre = headerLines @ drop (length headerLines) pre"
    and out: "outputLines toks = drop (length headerLines) pre @ line # post"
    by (simp_all add: take_all_iff) (metis append_take_drop_id)
  define pre2 where "pre2 = drop (length headerLines) pre"
  note pre = pre [folded pre2_def] and out = out [folded pre2_def]
  from assms(1) have "blocks_set_apart (outputLines toks)"
    by (rule outputLines_set_apart)
  with out assms(4) obtain before where b: "pre2 = before @ [[]]"
    and c: "before = [] \<or> last before \<noteq> []"
    unfolding blocks_set_apart_def by blast
  show ?thesis
  proof (cases "before = []")
    case True
    with pre b show ?thesis
      by (simp add: blankRun_def headerLines_def)
  next
    case False
    with c have "last before \<noteq> []" by simp
    with False have "takeWhile (\<lambda>line. line = []) (rev before @ rev headerLines) = []"
      by (cases before rule: rev_cases) simp_all
    with pre b False show ?thesis
      by (simp add: blankRun_def)
  qed
qed


text \<open>
  When no scanned line is empty or has a single quote, the output is the scanned lines
  with empty lines put in between: apart from them nothing is changed.
\<close>

lemma outputLines_text_kept:
  "\<forall>t \<in> set toks. t \<noteq> [] \<and> CHR 0x27 \<notin> set t
   \<Longrightarrow> filter (\<lambda>line. line \<noteq> []) (outputLines toks) = toks"
proof (induction toks)
  case Nil
  show ?case by (simp add: outputLines_def)
next
  case (Cons t toks)
  then have "CHR 0x27 \<notin> set t" by simp
  then have "ReplaceAll t (CHR 0x27) (CHR 0x22) = t"
    unfolding ReplaceAll_def by (intro map_idI) auto
  with Cons show ?case
    by (simp add: outputLines_def)
qed

subsection \<open>The layout of the encoded file\<close>

text \<open>
  C6 (as amended). Let the serializer succeed with a text whose lines are all shorter than
  the scanner's limit and not empty (a carriage return at the end of a line not counted).
  Then \<open>Encode\<close>, writing to an in-memory sink, returns no error, and what it appends
  is the lines of the header (the two comment lines, an empty line, the
  \<open>__metadata:\<close> block with \<open>version: 5\<close> and \<open>cacheKey: 8\<close>, an empty
  line) followed by lines \<open>ls\<close> such that, in the whole output, a line after the
  header that starts a top-level block has exactly two empty lines before it when it is
  the first line that the loop writes (the empty line that closes the header and the one
  that the loop puts before the line), and exactly one empty line before it otherwise; no
  single quote is left in \<open>ls\<close>; and \<open>ls\<close>, read without line breaks, is the
  serialized text with every single quote replaced by a double quote.
\<close>

theorem Encode_layout:
  assumes "yamlEncode (lockfileView s l) = Inr tmp"
    and "\<forall>line \<in> set (textLines tmp). length line < maxTokenSize \<and> dropCR line \<noteq> []"
  shows "\<exists>ls. Encode yamlEncode bufferWrite l w s = ((None, w @ unlines (headerLines @ ls)), s)
           \<and> (\<forall>line \<in> set ls. CHR 0x0A \<notin> set line)
           \<and> (\<forall>pre line post.
                 headerLines @ ls = pre @ line # post \<and> length headerLines \<le> length pre
                 \<and> topLevelLine line
                 \<longrightarrow> blankRun pre = (if pre = headerLines @ [[]] then 2 else 1))
           \<and> CHR 0x27 \<notin> set (unlines ls)
           \<and> concat ls = ReplaceAll (concat (map dropCR (textLines tmp))) (CHR 0x27) (CHR 0x22)"
proof -
  let ?toks = "map dropCR (textLines tmp)"
  let ?ls = "outputLines ?toks"
  from assms(2) have scan: "scanTokens maxTokenSize tmp = ?toks"
    by (intro scanTokens_textLines) simp
  have enc: "Encode yamlEncode bufferWrite l w s = ((None, w @ unlines (headerLines @ ?ls)), s)"
    using assms(1) by (simp add: Encode_buffer_bytes scan fileHeader_headerLines unlines_append)
  have "\<forall>t \<in> set ?toks. CHR 0x0A \<notin> set t"
  proof
    fix t
    assume "t \<in> set ?toks"
    then obtain line where "line \<in> set (textLines tmp)" and t: "t = dropCR line"
      by auto
    then have "CHR 0x0A \<notin> set line"
      by (intro textLines_no_linefeed)
    with t dropCR_subset [of line] show "CHR 0x0A \<notin> set t"
      by blast
  qed
  then have nolf: "\<forall>line \<in> set ?ls. CHR 0x0A \<notin> set line"
    by (rule outputLines_no_linefeed)
  from assms(2) have ne: "\<forall>t \<in> set ?toks. t \<noteq> []"
    by simp
  have runs: "\<forall>pre line post.
      headerLines @ ?ls = pre @ line # post \<and> length headerLines \<le> length pre
      \<and> topLevelLine line
      \<longrightarrow> blankRun pre = (if pre = headerLines @ [[]] then 2 else 1)"
    using outputLines_blank_runs [OF ne] by blast
  have noq: "CHR 0x27 \<notin> set (unlines ?ls)"
    by (rule outputLines_no_quote)
  have cat: "concat ?ls = ReplaceAll (concat ?toks) (CHR 0x27) (CHR 0x22)"
    by (rule outputLines_concat)
  from enc nolf runs noq cat show ?thesis
    by (intro exI [of _ ?ls] conjI)
qed

theorem Encode_layout_witness:
  "Encode (\<lambda>view. Inr ([CHR 0x27] @ ''@babel/core@^7.0.0'' @ [CHR 0x27] @ '':'' @ [CHR 0x0A]
                        @ ''  version: 7.0.0'' @ [CHR 0x0A]
                        @ ''  resolved: '' @ [CHR 0x22, CHR 0x22, CHR 0x0A]
                        @ ''  integrity: '' @ [CHR 0x22, CHR 0x22, CHR 0x0A]
                        @ ''lodash@^4.17.0:'' @ [CHR 0x0A]
                        @ ''  version: 4.17.21'' @ [CHR 0x0A]
                        @ ''  resolved: '' @ [CHR 0x22, CHR 0x22, CHR 0x0A]
                        @ ''  integrity: '' @ [CHR 0x22, CHR 0x22, CHR 0x0A]))
      bufferWrite 0 []
      \<lparr>entries = [1 \<mapsto> plainEntry ''7.0.0'', 2 \<mapsto> plainEntry ''4.17.21''],
       lockfiles = [0 \<mapsto> [''@babel/core@^7.0.0'' \<mapsto> Ref 1, ''lodash@^4.17.0'' \<mapsto> Ref 2]],
       fresh = 1\<rparr>
    = ((None, unlines (headerLines @
                [[],
                 [CHR 0x22] @ ''@babel/core@^7.0.0'' @ [CHR 0x22] @ '':'',
                 ''  version: 7.0.0'',
                 ''  resolved: '' @ [CHR 0x22, CHR 0x22],
                 ''  integrity: '' @ [CHR 0x22, CHR 0x22],
                 [],
                 ''lodash@^4.17.0:'',
                 ''  version: 4.17.21'',
                 ''  resolved: '' @ [CHR 0x22, CHR 0x22],
                 ''  integrity: '' @ [CHR 0x22, CHR 0x22]])),
       \<lparr>entries = [1 \<mapsto> plainEntry ''7.0.0'', 2 \<mapsto> plainEntry ''4.17.21''],
        lockfiles = [0 \<mapsto> [''@babel/core@^7.0.0'' \<mapsto> Ref 1, ''lodash@^4.17.0'' \<mapsto> Ref 2]],
        fresh = 1\<rparr>)
   \<and> blankRun (headerLines @ [[]]) = 2
   \<and> blankRun (headerLines @
                [[],
                 [CHR 0x22] @ ''@babel/core@^7.0.0'' @ [CHR 0x22] @ '':'',
                 ''  version: 7.0.0'',
                 ''  resolved: '' @ [CHR 0x22, CHR 0x22],
                 ''  integrity: '' @ [CHR 0x22, CHR 0x22],
                 []]) = 1"
proof -
  let ?tmp = "[CHR 0x27] @ ''@babel/core@^7.0.0'' @ [CHR 0x27] @ '':'' @ [CHR 0x0A]
                        @ ''  version: 7.0.0'' @ [CHR 0x0A]
                        @ ''  resolved: '' @ [CHR 0x22, CHR 0x22, CHR 0x0A]
                        @ ''  integrity: '' @ [CHR 0x22, CHR 0x22, CHR 0x0A]
                        @ ''lodash@^4.17.0:'' @ [CHR 0x0A]
                        @ ''  version: 4.17.21'' @ [CHR 0x0A]
                        @ ''  resolved: '' @ [CHR 0x22, CHR 0x22, CHR 0x0A]
                        @ ''  integrity: '' @ [CHR 0x22, CHR 0x22, CHR 0x0A]"
  let ?yaml = "\<lambda>view :: (string \<rightharpoonup> YarnLockfileEntry option) option. Inr ?tmp :: string + string"
  let ?s = "\<lparr>entries = [1 \<mapsto> plainEntry ''7.0.0'', 2 \<mapsto> plainEntry ''4.17.21''],
       lockfiles = [0 \<mapsto> [''@babel/core@^7.0.0'' \<mapsto> Ref 1, ''lodash@^4.17.0'' \<mapsto> Ref 2]],
       fresh = 1\<rparr>"
  let ?first = "[[CHR 0x22] @ ''@babel/core@^7.0.0'' @ [CHR 0x22] @ '':'',
                 ''  version: 7.0.0'',
                 ''  resolved: '' @ [CHR 0x22, CHR 0x22],
                 ''  integrity: '' @ [CHR 0x22, CHR 0x22]]"
  let ?second = "[''  version: 4.17.21'',
                 ''  resolved: '' @ [CHR 0x22, CHR 0x22],
                 ''  integrity: '' @ [CHR 0x22, CHR 0x22]]"
  let ?LS = "[] # ?first @ [] # ''lodash@^4.17.0:'' # ?second"
  have lines: "textLines ?tmp =
      [[CHR 0x27] @ ''@babel/core@^7.0.0'' @ [CHR 0x27] @ '':'',
       ''  version: 7.0.0'',
       ''  resolved: '' @ [CHR 0x22, CHR 0x22],
       ''  integrity: '' @ [CHR 0x22, CHR 0x22],
       ''lodash@^4.17.0:'',
       ''  version: 4.17.21'',
       ''  resolved: '' @ [CHR 0x22, CHR 0x22],
       ''  integrity: '' @ [CHR 0x22, CHR 0x22]]"
    by (simp add: textLines.simps)
  have ok: "\<forall>line \<in> set (textLines ?tmp). length line < maxTokenSize \<and> dropCR line \<noteq> []"
    unfolding lines by (simp add: maxTokenSize_def dropCR_def)
  from Encode_layout [where yamlEncode = ?yaml and s = ?s and l = 0 and w = "[]" and tmp = ?tmp,
      OF refl ok]
  obtain ls where enc: "Encode ?yaml bufferWrite 0 [] ?s = ((None, [] @ unlines (headerLines @ ls)), ?s)"
    and nolf: "\<forall>line \<in> set ls. CHR 0x0A \<notin> set line"
    and runs: "\<forall>pre line post.
                 headerLines @ ls = pre @ line # post \<and> length headerLines \<le> length pre
                 \<and> topLevelLine line
                 \<longrightarrow> blankRun pre = (if pre = headerLines @ [[]] then 2 else 1)"
    and cat: "concat ls = ReplaceAll (concat (map dropCR (textLines ?tmp))) (CHR 0x27) (CHR 0x22)"
    by blast
  have direct: "Encode ?yaml bufferWrite 0 [] ?s = ((None, unlines (headerLines @ ?LS)), ?s)"
    by (simp add: Encode_def bufferWrite_def scanTokens.simps maxTokenSize_def dropCR_def
        ReplaceAll_def unlines_def fileHeader_def headerLines_def)
  with enc have "unlines (headerLines @ ls) = unlines (headerLines @ ?LS)"
    by simp
  then have "textLines (unlines (headerLines @ ls)) = textLines (unlines (headerLines @ ?LS))"
    by (rule arg_cong)
  moreover have "textLines (unlines (headerLines @ ls)) = headerLines @ ls"
    using nolf headerLines_no_linefeed by (intro textLines_unlines) auto
  moreover have "textLines (unlines (headerLines @ ?LS)) = headerLines @ ?LS"
    using headerLines_no_linefeed by (intro textLines_unlines) auto
  ultimately have ls: "ls = ?LS"
    by simp
  have one: "headerLines @ ls = (headerLines @ [[]]) @ hd ?first # (tl ?first @ [] # ''lodash@^4.17.0:'' # ?second)
      \<and> length headerLines \<le> length (headerLines @ [[]]) \<and> topLevelLine (hd ?first)"
    unfolding ls by (simp add: topLevelLine_def)
  have two: "headerLines @ ls = (headerLines @ [] # ?first @ [[]]) @ ''lodash@^4.17.0:'' # ?second
      \<and> length headerLines \<le> length (headerLines @ [] # ?first @ [[]])
      \<and> topLevelLine ''lodash@^4.17.0:''"
    unfolding ls by (simp add: topLevelLine_def)
  from runs [rule_format, OF one] have r1: "blankRun (headerLines @ [[]]) = 2"
    by simp
  from runs [rule_format, OF two] have r2: "blankRun (headerLines @ [] # ?first @ [[]]) = 1"
    by simp
  from direct r1 r2 show ?thesis
    by simp
qed

text \<open>
  The claim as it stands fails for every lockfile whose serialized text starts with a
  key: the header ends in an empty line, and the loop puts one more before the first
  block. For a lockfile with one entry the block \<open>a@^1.0.0:\<close> has two empty lines
  before it, not one.
\<close>

theorem Encode_first_block_two_blank_lines:
  "Encode (\<lambda>view. Inr (''a@^1.0.0:'' @ [CHR 0x0A]
                       @ ''  version: 1.0.0'' @ [CHR 0x0A]
                       @ ''  resolved: '' @ [CHR 0x22, CHR 0x22, CHR 0x0A]
                       @ ''  integrity: '' @ [CHR 0x22, CHR 0x22, CHR 0x0A]))
      bufferWrite 0 []
      \<lparr>entries = [1 \<mapsto> plainEntry ''1.0.0''],
       lockfiles = [0 \<mapsto> [''a@^1.0.0'' \<mapsto> Ref 1]], fresh = 1\<rparr>
    = ((None, unlines [''# This file is generated by running '' @ [CHR 0x22]
                         @ ''yarn install'' @ [CHR 0x22] @ '' inside your project.'',
                       ''# Manual changes might be lost - proceed with caution!'',
                       [],
                       ''__metadata:'',
                       ''  version: 5'',
                       ''  cacheKey: 8'',
                       [],
                       [],
                       ''a@^1.0.0:'',
                       ''  version: 1.0.0'',
                       ''  resolved: '' @ [CHR 0x22, CHR 0x22],
                       ''  integrity: '' @ [CHR 0x22, CHR 0x22]]),
       \<lparr>entries = [1 \<mapsto> plainEntry ''1.0.0''],
        lockfiles = [0 \<mapsto> [''a@^1.0.0'' \<mapsto> Ref 1]], fresh = 1\<rparr>)
   \<and> topLevelLine ''a@^1.0.0:''
   \<and> blankRun [''# This file is generated by running '' @ [CHR 0x22]
                  @ ''yarn install'' @ [CHR 0x22] @ '' inside your project.'',
                ''# Manual changes might be lost - proceed with caution!'',
                [],
                ''__metadata:'',
                ''  version: 5'',
                ''  cacheKey: 8'',
                [],
                []] = 2"
  by (simp add: Encode_def bufferWrite_def scanTokens.simps maxTokenSize_def dropCR_def
      ReplaceAll_def unlines_def fileHeader_def topLevelLine_def blankRun_def)

text \<open>
  An empty line in the serialized text is treated as the start of a block. The text below
  is what the serializer leaves for two entries when the integrity string of the first
  ends in an empty line (a block scalar that keeps its trailing line breaks): the block of
  the second key ends up with three empty lines before it.
\<close>

lemma Encode_blank_line_in_literal:
  "Encode (\<lambda>view. Inr (''a@^1.0.0:'' @ [CHR 0x0A]
                       @ ''  version: 1.0.0'' @ [CHR 0x0A]
                       @ ''  resolved: '' @ [CHR 0x22, CHR 0x22, CHR 0x0A]
                       @ ''  integrity: |+'' @ [CHR 0x0A]
                       @ ''    x'' @ [CHR 0x0A]
                       @ [CHR 0x0A]
                       @ ''b@^2.0.0:'' @ [CHR 0x0A]
                       @ ''  version: 2.0.0'' @ [CHR 0x0A]
                       @ ''  resolved: '' @ [CHR 0x22, CHR 0x22, CHR 0x0A]
                       @ ''  integrity: '' @ [CHR 0x22, CHR 0x22, CHR 0x0A]))
      bufferWrite 0 []
      \<lparr>entries = [1 \<mapsto> \<lparr>Version = ''1.0.0'', Resolved = '''',
                          Integrity = ''x'' @ [CHR 0x0A, CHR 0x0A],
                          Dependencies = [], OptionalDependencies = []\<rparr>,
                  2 \<mapsto> plainEntry ''2.0.0''],
       lockfiles = [0 \<mapsto> [''a@^1.0.0'' \<mapsto> Ref 1, ''b@^2.0.0'' \<mapsto> Ref 2]], fresh = 1\<rparr>
    = ((None, unlines (headerLines @
                [[], ''a@^1.0.0:'', ''  version: 1.0.0'',
                 ''  resolved: '' @ [CHR 0x22, CHR 0x22], ''  integrity: |+'', ''    x'',
                 [], [], [], ''b@^2.0.0:'', ''  version: 2.0.0'',
                 ''  resolved: '' @ [CHR 0x22, CHR 0x22], ''  integrity: '' @ [CHR 0x22, CHR 0x22]])),
       \<lparr>entries = [1 \<mapsto> \<lparr>Version = ''1.0.0'', Resolved = '''',
                          Integrity = ''x'' @ [CHR 0x0A, CHR 0x0A],
                          Dependencies = [], OptionalDependencies = []\<rparr>,
                  2 \<mapsto> plainEntry ''2.0.0''],
       lockfiles = [0 \<mapsto> [''a@^1.0.0'' \<mapsto> Ref 1, ''b@^2.0.0'' \<mapsto> Ref 2]], fresh = 1\<rparr>)
   \<and> blankRun (headerLines @
                [[], ''a@^1.0.0:'', ''  version: 1.0.0'',
                 ''  resolved: '' @ [CHR 0x22, CHR 0x22], ''  integrity: |+'', ''    x'',
                 [], [], []]) = 3"
  by (simp add: Encode_def bufferWrite_def scanTokens.simps maxTokenSize_def dropCR_def
      ReplaceAll_def unlines_def fileHeader_def headerLines_def blankRun_def)

subsection \<open>Order\<close>




subsection \<open>Decoding what was encoded\<close>





end
